theory Spec2Isabelle
  imports Complex_Main "HOL-Library.Sublist" "HOL-Library.Multiset"
begin

section \<open>The chess game component: data\<close>

text \<open>
  The component \<^verbatim>\<open>ChessGame.tsx\<close> drives a computer opponent on top of the rules
  engine \<^verbatim>\<open>chess.js\<close>. The engine is not part of the repository: what the component
  reads from a \<^verbatim>\<open>Chess\<close> object (the board, the fields of the FEN string, the legal
  moves, the status flags) is a record here, and the engine's move function is a parameter
  of every definition that calls it. The FEN string is computed from the position as the
  standard writes it, which is what the engine's \<^verbatim>\<open>fen()\<close> returns. JavaScript numbers
  are doubles, modelled as the reals they denote: every term of a score is an integer or a
  half, which doubles add exactly, and where the random jitter enters the result of each
  operation is rounded to a double. A call of \<^verbatim>\<open>Math.random()\<close> is a parameter, which
  the theorems take to be a double from the interval from 0 to 1, 1 excluded. React state
  that a function reads (\<^verbatim>\<open>difficulty\<close>, \<^verbatim>\<open>moveHistory\<close>) is a parameter too.
\<close>

datatype color = White | Black

datatype ptype = Pawn | Knight | Bishop | Rook | Queen | King

datatype piece = Piece (ptype: ptype) (pcolor: color)

datatype Difficulty = Easy | Medium | Hard

text \<open>Exceptions: the engine rejecting a move, and reading a property of \<^verbatim>\<open>undefined\<close>.\<close>

datatype error = IllegalMove | TypeError

text \<open>A verbose move of the engine, with the fields the component reads.\<close>

record move =
  move_from :: string
  move_to :: string
  move_piece :: ptype
  move_captured :: "ptype option"
  move_promotion :: "ptype option"
  move_san :: string

text \<open>
  What the FEN string serialises: \<^verbatim>\<open>board()\<close> is the 8 x 8 array, row 0 the eighth
  rank; the castling rights are the four flags K, Q, k, q; the en-passant square is a
  file index and a rank index as the engine's \<^verbatim>\<open>algebraic\<close> reads them.
\<close>

record position =
  board :: "piece option list list"
  turn :: color
  castle_K :: bool
  castle_Q :: bool
  castle_k :: bool
  castle_q :: bool
  ep_square :: "(nat \<times> nat) option"
  half_moves :: nat
  move_number :: nat

text \<open>A position together with the engine's answers about it.\<close>

record game = position +
  legal_moves :: "move list"
  isCheck :: bool
  isCheckmate :: bool
  isDraw :: bool

text \<open>
  A \<^verbatim>\<open>Chess\<close> object: the current position and the positions \<^verbatim>\<open>undo()\<close> goes back
  to. \<^verbatim>\<open>move\<close> takes an object with \<^verbatim>\<open>from\<close>, \<^verbatim>\<open>to\<close> and \<^verbatim>\<open>promotion\<close>; the
  engine answers with the move made and the position reached, or rejects the request.
\<close>

record chess =
  current :: game
  history :: "game list"

record move_request =
  req_from :: string
  req_to :: string
  req_promotion :: "ptype option"

type_synonym rules = "game \<Rightarrow> move_request \<Rightarrow> (move \<times> game) option"

definition request_of :: "move \<Rightarrow> move_request" where
  "request_of m =
     \<lparr>req_from = move_from m, req_to = move_to m, req_promotion = move_promotion m\<rparr>"

definition new_Chess :: "game \<Rightarrow> chess" where
  "new_Chess g = \<lparr>current = g, history = []\<rparr>"

text \<open>
  \<^verbatim>\<open>gameCopy.move(m)\<close> throws on an illegal move (the component uses the engine's
  version 1 interface, \<^verbatim>\<open>isCheck\<close>, \<^verbatim>\<open>isDraw\<close>, \<^verbatim>\<open>isGameOver\<close>) and leaves the
  object as it was; \<^verbatim>\<open>gameCopy.undo()\<close> takes back the last move, and does nothing when
  there is none.
\<close>

definition chess_move :: "rules \<Rightarrow> chess \<Rightarrow> move_request \<Rightarrow> error + (move \<times> chess)" where
  "chess_move engine c req =
     (case engine (current c) req of
        None \<Rightarrow> Inl IllegalMove
      | Some (m, g) \<Rightarrow> Inr (m, \<lparr>current = g, history = current c # history c\<rparr>))"

definition chess_undo :: "chess \<Rightarrow> chess" where
  "chess_undo c =
     (case history c of
        [] \<Rightarrow> c
      | g # gs \<Rightarrow> \<lparr>current = g, history = gs\<rparr>)"

subsection \<open>The FEN string\<close>

fun type_char :: "ptype \<Rightarrow> char" where
  "type_char Pawn = CHR ''p''"
| "type_char Knight = CHR ''n''"
| "type_char Bishop = CHR ''b''"
| "type_char Rook = CHR ''r''"
| "type_char Queen = CHR ''q''"
| "type_char King = CHR ''k''"

fun upper_char :: "ptype \<Rightarrow> char" where
  "upper_char Pawn = CHR ''P''"
| "upper_char Knight = CHR ''N''"
| "upper_char Bishop = CHR ''B''"
| "upper_char Rook = CHR ''R''"
| "upper_char Queen = CHR ''Q''"
| "upper_char King = CHR ''K''"

definition piece_char :: "piece \<Rightarrow> char" where
  "piece_char p = (if pcolor p = White then upper_char (ptype p) else type_char (ptype p))"

definition digit_char :: "nat \<Rightarrow> char" where
  "digit_char n = ''0123456789'' ! (n mod 10)"

fun decimal :: "nat \<Rightarrow> string" where
  "decimal n = (if n < 10 then [digit_char n] else decimal (n div 10) @ [digit_char n])"

declare decimal.simps [simp del]

text \<open>One rank: runs of empty squares are written as their length.\<close>

fun fen_row :: "nat \<Rightarrow> piece option list \<Rightarrow> string" where
  "fen_row emp [] = (if 0 < emp then decimal emp else [])"
| "fen_row emp (None # cs) = fen_row (emp + 1) cs"
| "fen_row emp (Some p # cs) =
     (if 0 < emp then decimal emp else []) @ piece_char p # fen_row 0 cs"

fun join_rows :: "string list \<Rightarrow> string" where
  "join_rows [] = []"
| "join_rows [r] = r"
| "join_rows (r # rs) = r @ CHR ''/'' # join_rows rs"

definition placement :: "piece option list list \<Rightarrow> string" where
  "placement b = join_rows (map (fen_row 0) b)"

definition castling_field :: "'a position_scheme \<Rightarrow> string" where
  "castling_field g =
     (let s = (if castle_K g then ''K'' else '''') @ (if castle_Q g then ''Q'' else '''') @
              (if castle_k g then ''k'' else '''') @ (if castle_q g then ''q'' else '''')
      in if s = [] then ''-'' else s)"

definition algebraic :: "nat \<times> nat \<Rightarrow> string" where
  "algebraic sq = take 1 (drop (fst sq) ''abcdefgh'') @ take 1 (drop (snd sq) ''87654321'')"

definition ep_field :: "'a position_scheme \<Rightarrow> string" where
  "ep_field g = (case ep_square g of None \<Rightarrow> ''-'' | Some sq \<Rightarrow> algebraic sq)"

definition fen :: "'a position_scheme \<Rightarrow> string" where
  "fen g =
     placement (board g) @ '' '' @ (if turn g = White then ''w'' else ''b'') @ '' '' @
     castling_field g @ '' '' @ ep_field g @ '' '' @
     decimal (half_moves g) @ '' '' @ decimal (move_number g)"

subsection \<open>Strings and regular expressions of the component\<close>

text \<open>\<^verbatim>\<open>(s.match(/[...]/g) || []).length\<close> for a character class.\<close>

definition match_count :: "(char \<Rightarrow> bool) \<Rightarrow> string \<Rightarrow> nat" where
  "match_count cls s = length (filter cls s)"

text \<open>\<^verbatim>\<open>s.includes(t)\<close>: the text \<open>t\<close> occurs in \<open>s\<close>, character by character.\<close>

fun str_includes :: "string \<Rightarrow> string \<Rightarrow> bool" where
  "str_includes [] t = (t = [])"
| "str_includes (c # s) t = (prefix t (c # s) \<or> str_includes s t)"

text \<open>\<^verbatim>\<open>s.split(' ')[0]\<close>.\<close>

definition first_field :: "string \<Rightarrow> string" where
  "first_field s = takeWhile (\<lambda>c. c \<noteq> CHR '' '') s"

text \<open>
  The regular expression \<^verbatim>\<open>file + '[1-8].*?p'\<close> with the flag \<^verbatim>\<open>g\<close>: \<open>lazy_to_p\<close> is
  \<^verbatim>\<open>.*?p\<close> (the dot takes no line terminator), \<open>match_here\<close> one match at the start
  of the string, both returning what follows the match; \<open>regex_count\<close> counts the
  matches from left to right, each search starting where the last match ended.
\<close>

fun lazy_to_p :: "string \<Rightarrow> string option" where
  "lazy_to_p [] = None"
| "lazy_to_p (c # s) =
     (if c = CHR ''p'' then Some s
      else if c = CHR 0x0A \<or> c = CHR 0x0D then None
      else lazy_to_p s)"

fun match_here :: "char \<Rightarrow> string \<Rightarrow> string option" where
  "match_here file (c # d # s) =
     (if c = file \<and> d \<in> set ''12345678'' then lazy_to_p s else None)"
| "match_here file s = None"

lemma lazy_to_p_shorter: "lazy_to_p s = Some r \<Longrightarrow> length r < length s"
  by (induction s) (auto split: if_splits)

lemma match_here_shorter: "match_here file s = Some r \<Longrightarrow> length r < length s"
  by (cases "(file, s)" rule: match_here.cases)
     (auto split: if_splits dest: lazy_to_p_shorter)

function regex_count :: "char \<Rightarrow> string \<Rightarrow> nat" where
  "regex_count file [] = 0"
| "regex_count file (c # s) =
     (case match_here file (c # s) of
        Some rest \<Rightarrow> 1 + regex_count file rest
      | None \<Rightarrow> regex_count file s)"
  by pat_completeness auto
termination
  by (relation "measure (\<lambda>(file, s). length s)")
     (auto dest: match_here_shorter)

section \<open>The component's constants\<close>

fun PIECE_VALUES :: "ptype \<Rightarrow> real" where
  "PIECE_VALUES Pawn = 100"
| "PIECE_VALUES Knight = 320"
| "PIECE_VALUES Bishop = 330"
| "PIECE_VALUES Rook = 500"
| "PIECE_VALUES Queen = 900"
| "PIECE_VALUES King = 20000"

definition PAWN_POSITION_SCORES :: "real list" where
  "PAWN_POSITION_SCORES =
    [0,  0,  0,  0,  0,  0,  0,  0,
     50, 50, 50, 50, 50, 50, 50, 50,
     10, 10, 20, 30, 30, 20, 10, 10,
     5,  5, 10, 25, 25, 10,  5,  5,
     0,  0,  0, 20, 20,  0,  0,  0,
     5, -5,-10,  0,  0,-10, -5,  5,
     5, 10, 10,-20,-20, 10, 10,  5,
     0,  0,  0,  0,  0,  0,  0,  0]"

definition KNIGHT_POSITION_SCORES :: "real list" where
  "KNIGHT_POSITION_SCORES =
    [-50,-40,-30,-30,-30,-30,-40,-50,
     -40,-20,  0,  0,  0,  0,-20,-40,
     -30,  0, 10, 15, 15, 10,  0,-30,
     -30,  5, 15, 20, 20, 15,  5,-30,
     -30,  0, 15, 20, 20, 15,  0,-30,
     -30,  5, 10, 15, 15, 10,  5,-30,
     -40,-20,  0,  5,  5,  0,-20,-40,
     -50,-40,-30,-30,-30,-30,-40,-50]"

definition BISHOP_POSITION_SCORES :: "real list" where
  "BISHOP_POSITION_SCORES =
    [-20,-10,-10,-10,-10,-10,-10,-20,
     -10,  5,  0,  0,  0,  0,  5,-10,
     -10, 10, 10, 10, 10, 10, 10,-10,
     -10,  0, 10, 10, 10, 10,  0,-10,
     -10,  5,  5, 10, 10,  5,  5,-10,
     -10,  0,  5, 10, 10,  5,  0,-10,
     -10,  0,  0,  0,  0,  0,  0,-10,
     -20,-10,-10,-10,-10,-10,-10,-20]"

definition ROOK_POSITION_SCORES :: "real list" where
  "ROOK_POSITION_SCORES =
    [0,  0,  0,  5,  5,  0,  0,  0,
     -5,  0,  0,  0,  0,  0,  0, -5,
     -5,  0,  0,  0,  0,  0,  0, -5,
     -5,  0,  0,  0,  0,  0,  0, -5,
     -5,  0,  0,  0,  0,  0,  0, -5,
     -5,  0,  0,  0,  0,  0,  0, -5,
     5, 10, 10, 10, 10, 10, 10,  5,
     0,  0,  0,  0,  0,  0,  0,  0]"

definition QUEEN_POSITION_SCORES :: "real list" where
  "QUEEN_POSITION_SCORES =
    [-20,-10,-10, -5, -5,-10,-10,-20,
     -10,  0,  0,  0,  0,  0,  0,-10,
     -10,  0,  5,  5,  5,  5,  0,-10,
     -5,  0,  5,  5,  5,  5,  0, -5,
     0,  0,  5,  5,  5,  5,  0, -5,
     -10,  5,  5,  5,  5,  5,  0,-10,
     -10,  0,  5,  0,  0,  0,  0,-10,
     -20,-10,-10, -5, -5,-10,-10,-20]"

definition KING_MIDDLEGAME_SCORES :: "real list" where
  "KING_MIDDLEGAME_SCORES =
    [20, 30, 10,  0,  0, 10, 30, 20,
     20, 20,  0,  0,  0,  0, 20, 20,
     -10,-20,-20,-20,-20,-20,-20,-10,
     -20,-30,-30,-40,-40,-30,-30,-20,
     -30,-40,-40,-50,-50,-40,-40,-30,
     -30,-40,-40,-50,-50,-40,-40,-30,
     -30,-40,-40,-50,-50,-40,-40,-30,
     -30,-40,-40,-50,-50,-40,-40,-30]"

definition KING_ENDGAME_SCORES :: "real list" where
  "KING_ENDGAME_SCORES =
    [-50,-30,-30,-30,-30,-30,-30,-50,
     -30,-30,  0,  0,  0,  0,-30,-30,
     -30,-10, 20, 30, 30, 20,-10,-30,
     -30,-10, 30, 40, 40, 30,-10,-30,
     -30,-10, 30, 40, 40, 30,-10,-30,
     -30,-10, 20, 30, 30, 20,-10,-30,
     -30,-20,-10,  0,  0,-10,-20,-30,
     -50,-40,-30,-20,-20,-30,-40,-50]"

fun THINKING_TIME :: "Difficulty \<Rightarrow> nat" where
  "THINKING_TIME Easy = 3000"
| "THINKING_TIME Medium = 2000"
| "THINKING_TIME Hard = 1000"

section \<open>The evaluators\<close>

text \<open>
  The squares in the order of the loops \<^verbatim>\<open>for row ... for col ...\<close>, and
  \<^verbatim>\<open>position[row][col]\<close>. The engine's board has eight rows of eight squares and the
  loops stay within them. A loop that adds to \<^verbatim>\<open>score\<close> square by square is the sum of
  its terms; a loop that sets a flag is the test whether some row sets it.
\<close>

definition squares :: "(nat \<times> nat) list" where
  "squares = concat (map (\<lambda>row. map (\<lambda>col. (row, col)) [0..<8]) [0..<8])"

definition cell :: "piece option list list \<Rightarrow> nat \<Rightarrow> nat \<Rightarrow> piece option" where
  "cell position row col = position ! row ! col"

subsection \<open>\<^verbatim>\<open>isInEndgame\<close> (lines 638 to 644) and \<^verbatim>\<open>isDrawnPosition\<close> (984 to 989)\<close>

definition isInEndgame :: "'a position_scheme \<Rightarrow> bool" where
  "isInEndgame gameCopy =
     (let fen = fen gameCopy;
          queens = match_count (\<lambda>c. c = CHR ''q'' \<or> c = CHR ''Q'') fen;
          pieces = match_count (\<lambda>c. c \<in> set ''rnbRNB'') fen
      in queens = 0 \<or> pieces \<le> 6)"

definition isDrawnPosition :: "'a position_scheme \<Rightarrow> bool" where
  "isDrawnPosition gameCopy =
     (let fen = fen gameCopy;
          pieces = first_field fen;
          pieceCount = match_count (\<lambda>c. c \<in> set ''prnbqPRNBQ'') pieces
      in pieceCount \<le> 3)"

subsection \<open>\<^verbatim>\<open>evaluateBasicPosition\<close> (lines 427 to 441)\<close>

definition evaluateBasicPosition :: "move \<Rightarrow> game \<Rightarrow> real" where
  "evaluateBasicPosition m gameCopy =
     (let score = 0;
          score = (case move_captured m of
                     Some c \<Rightarrow> score + PIECE_VALUES c * 2
                   | None \<Rightarrow> score);
          score = (if isCheck gameCopy then score + 50 else score);
          score = (if isCheckmate gameCopy then score + 10000 else score);
          score = (if isDraw gameCopy then score - 5000 else score)
      in score)"

subsection \<open>The piece-square sums: \<^verbatim>\<open>evaluatePosition\<close> (lines 592 to 631)\<close>

text \<open>
  The \<^verbatim>\<open>switch\<close> on the piece type, the same in \<^verbatim>\<open>evaluatePosition\<close> and in the
  second \<^verbatim>\<open>evaluateAdvancedPosition\<close>; \<open>endgame\<close> is the test of the king's case.
\<close>

definition table_score :: "real list \<Rightarrow> bool \<Rightarrow> nat \<Rightarrow> real" where
  "table_score table isBlack square =
     (if isBlack then table ! (63 - square) else - (table ! square))"

fun piece_square :: "bool \<Rightarrow> piece \<Rightarrow> nat \<Rightarrow> real" where
  "piece_square endgame (Piece Pawn c) square = table_score PAWN_POSITION_SCORES (c = Black) square"
| "piece_square endgame (Piece Knight c) square = table_score KNIGHT_POSITION_SCORES (c = Black) square"
| "piece_square endgame (Piece Bishop c) square = table_score BISHOP_POSITION_SCORES (c = Black) square"
| "piece_square endgame (Piece Rook c) square = table_score ROOK_POSITION_SCORES (c = Black) square"
| "piece_square endgame (Piece Queen c) square = table_score QUEEN_POSITION_SCORES (c = Black) square"
| "piece_square endgame (Piece King c) square =
     (if endgame then table_score KING_ENDGAME_SCORES (c = Black) square
      else table_score KING_MIDDLEGAME_SCORES (c = Black) square)"

definition square_term :: "bool \<Rightarrow> piece option list list \<Rightarrow> nat \<times> nat \<Rightarrow> real" where
  "square_term endgame position rc =
     (case cell position (fst rc) (snd rc) of
        None \<Rightarrow> 0
      | Some piece \<Rightarrow> piece_square endgame piece (fst rc * 8 + snd rc))"

definition evaluatePosition :: "'a position_scheme \<Rightarrow> real" where
  "evaluatePosition gameCopy =
     (let position = board gameCopy
      in sum_list (map (square_term (isInEndgame gameCopy) position) squares))"

subsection \<open>\<^verbatim>\<open>countAttacksNearKing\<close> (lines 651 to 680) and \<^verbatim>\<open>evaluateKingSafety\<close> (571 to 585)\<close>

text \<open>
  \<^verbatim>\<open>parseInt\<close> of one character and \<^verbatim>\<open>charCodeAt(0)\<close>: \<open>None\<close> is \<^verbatim>\<open>NaN\<close>, which
  fails every comparison.
\<close>

definition parseInt_at1 :: "string \<Rightarrow> int option" where
  "parseInt_at1 s =
     (if 1 < length s \<and> s ! 1 \<in> set ''0123456789'' then Some (int (of_char (s ! 1)) - 48)
      else None)"

definition charCode_at0 :: "string \<Rightarrow> int option" where
  "charCode_at0 s = (case s of [] \<Rightarrow> None | c # _ \<Rightarrow> Some (int (of_char c)))"

definition near :: "int option \<Rightarrow> int \<Rightarrow> bool" where
  "near x k = (case x of None \<Rightarrow> False | Some v \<Rightarrow> \<bar>v - k\<bar> \<le> 1)"

definition find_black_king :: "piece option list list \<Rightarrow> int \<times> int" where
  "find_black_king position =
     (case find (\<lambda>rc. cell position (fst rc) (snd rc) = Some (Piece King Black)) squares of
        None \<Rightarrow> (-1, -1)
      | Some rc \<Rightarrow> (int (fst rc), int (snd rc)))"

definition countAttacksNearKing :: "game \<Rightarrow> nat" where
  "countAttacksNearKing gameCopy =
     (let position = board gameCopy;
          king = find_black_king position;
          moves = legal_moves gameCopy
      in length (filter (\<lambda>m.
           near (map_option (\<lambda>d. 8 - d) (parseInt_at1 (move_to m))) (fst king) \<and>
           near (map_option (\<lambda>c. c - 97) (charCode_at0 (move_to m))) (snd king)) moves))"

definition evaluateKingSafety :: "game \<Rightarrow> bool \<Rightarrow> real" where
  "evaluateKingSafety gameCopy isEndgame =
     (let score = 0 in
      if \<not> isEndgame then
        (let score = (if str_includes (fen gameCopy) ''k.*?r'' \<or> str_includes (fen gameCopy) ''r.*?k''
                      then score + 60 else score)
         in score - real (countAttacksNearKing gameCopy) * 10)
      else score)"

subsection \<open>\<^verbatim>\<open>evaluatePawnStructure\<close> (lines 541 to 563)\<close>

text \<open>\<^verbatim>\<open>files.indexOf(file)\<close>, for a file that is in the list.\<close>

fun index_of :: "'a list \<Rightarrow> 'a \<Rightarrow> nat" where
  "index_of [] x = 0"
| "index_of (y # ys) x = (if x = y then 0 else 1 + index_of ys x)"

text \<open>The body of \<^verbatim>\<open>files.forEach\<close>: one file's share of the score.\<close>

definition pawn_file_step :: "string \<Rightarrow> real \<Rightarrow> char \<Rightarrow> real" where
  "pawn_file_step position score file =
     (let files = ''abcdefgh'';
          pawnsInFile = regex_count file position;
          score = (if 1 < pawnsInFile then score - 20 else score);
          hasPawn = str_includes position (file # ''[1-8].*?p'')
      in if hasPawn then
           (let hasNeighborPawn =
                  (file \<noteq> CHR ''a'' \<and>
                     str_includes position (files ! (index_of files file - 1) # ''[1-8].*?p'')) \<or>
                  (file \<noteq> CHR ''h'' \<and>
                     str_includes position (files ! (index_of files file + 1) # ''[1-8].*?p''))
            in if hasNeighborPawn then score else score - 15)
         else score)"

definition evaluatePawnStructure :: "'a position_scheme \<Rightarrow> real" where
  "evaluatePawnStructure gameCopy =
     (let fen = fen gameCopy;
          position = first_field fen
      in foldl (pawn_file_step position) 0 ''abcdefgh'')"

subsection \<open>\<^verbatim>\<open>evaluateAdvancedPawnStructure\<close> (lines 876 to 938)\<close>

text \<open>
  The first loop counts the black pawns of each file. The second sets, for each file,
  \<^verbatim>\<open>hasPawn\<close> when the file holds a black pawn, clears \<^verbatim>\<open>isPassed\<close> when some row above
  a black pawn of the file (a smaller row index: towards the eighth rank) holds a pawn of
  either colour, and clears \<^verbatim>\<open>isIsolated\<close> when a neighbouring file holds a black pawn.
\<close>

definition is_black_pawn :: "piece option \<Rightarrow> bool" where
  "is_black_pawn p = (p = Some (Piece Pawn Black))"

definition is_pawn :: "piece option \<Rightarrow> bool" where
  "is_pawn p = (case p of None \<Rightarrow> False | Some q \<Rightarrow> ptype q = Pawn)"

definition doubled_step :: "piece option list list \<Rightarrow> real \<Rightarrow> nat \<Rightarrow> real" where
  "doubled_step position score col =
     (let blackPawns = length (filter (\<lambda>row. is_black_pawn (cell position row col)) [0..<8])
      in if 1 < blackPawns then score - 30 else score)"

definition structure_step :: "piece option list list \<Rightarrow> real \<Rightarrow> nat \<Rightarrow> real" where
  "structure_step position score col =
     (let hasPawn = list_ex (\<lambda>row. is_black_pawn (cell position row col)) [0..<8];
          isPassed = (\<not> list_ex (\<lambda>row. is_black_pawn (cell position row col) \<and>
                         list_ex (\<lambda>r. is_pawn (cell position r col)) [0..<row]) [0..<8]);
          leftPawn = (0 < col \<and> list_ex (\<lambda>row. is_black_pawn (cell position row (col - 1))) [0..<8]);
          rightPawn = (col < 7 \<and> list_ex (\<lambda>row. is_black_pawn (cell position row (col + 1))) [0..<8]);
          isIsolated = (\<not> leftPawn \<and> \<not> rightPawn)
      in if hasPawn then
           (let score = (if isIsolated then score - 25 else score);
                score = (if isPassed then score + 50 else score)
            in score)
         else score)"

definition evaluateAdvancedPawnStructure :: "'a position_scheme \<Rightarrow> real" where
  "evaluateAdvancedPawnStructure gameCopy =
     (let position = board gameCopy;
          score = foldl (doubled_step position) 0 [0..<8];
          score = foldl (structure_step position) score [0..<8]
      in score)"

subsection \<open>\<^verbatim>\<open>evaluateOpeningPrinciples\<close> (507 to 519), \<^verbatim>\<open>evaluateThreats\<close> (526 to 534),
  \<^verbatim>\<open>evaluateCenterControl\<close> (687 to 704)\<close>

definition opening_step :: "real \<Rightarrow> real \<Rightarrow> move \<Rightarrow> real" where
  "opening_step weight score m =
     (let score = (if move_piece m \<in> set [Knight, Bishop] then score + 30 * weight else score);
          score = (if str_includes (move_san m) ''O-O'' \<or> str_includes (move_san m) ''O-O-O''
                   then score + 40 * weight else score);
          score = (if move_piece m = Queen \<and> move_captured m = None
                   then score - 30 * weight else score);
          score = (if move_piece m = Pawn \<and> move_to m \<in> set [''d4'', ''d5'', ''e4'', ''e5'']
                   then score + 25 * weight else score)
      in score)"

definition evaluateOpeningPrinciples :: "game \<Rightarrow> real \<Rightarrow> real" where
  "evaluateOpeningPrinciples gameCopy weight =
     foldl (opening_step weight) 0 (legal_moves gameCopy)"

definition threat_step :: "game \<Rightarrow> real \<Rightarrow> move \<Rightarrow> real" where
  "threat_step gameCopy mx nextMove =
     (if move_captured nextMove \<noteq> None \<or> isCheck gameCopy then
        max mx (PIECE_VALUES (case move_captured nextMove of None \<Rightarrow> Pawn | Some c \<Rightarrow> c))
      else mx)"

definition evaluateThreats :: "game \<Rightarrow> real" where
  "evaluateThreats gameCopy = foldl (threat_step gameCopy) 0 (legal_moves gameCopy)"

definition evaluateCenterControl :: "game \<Rightarrow> real" where
  "evaluateCenterControl gameCopy =
     (let centerSquares = [''d4'', ''d5'', ''e4'', ''e5''];
          extendedCenter = [''c3'', ''c4'', ''c5'', ''c6'', ''d3'', ''d6'',
                            ''e3'', ''e6'', ''f3'', ''f4'', ''f5'', ''f6''];
          controlledSquares = set (map move_to (legal_moves gameCopy));
          score = foldl (\<lambda>score square. if square \<in> controlledSquares then score + 10 else score)
                    0 centerSquares;
          score = foldl (\<lambda>score square. if square \<in> controlledSquares then score + 5 else score)
                    score extendedCenter
      in score)"

subsection \<open>\<^verbatim>\<open>evaluateEndgamePosition\<close> (lines 941 to 981)\<close>

text \<open>The loop keeps the last king of each colour it meets.\<close>

definition king_pos :: "color \<Rightarrow> piece option list list \<Rightarrow> (nat \<times> nat) option" where
  "king_pos c position =
     (case filter (\<lambda>rc. cell position (fst rc) (snd rc) = Some (Piece King c)) squares of
        [] \<Rightarrow> None
      | k # ks \<Rightarrow> Some (last (k # ks)))"

definition evaluateEndgamePosition :: "'a position_scheme \<Rightarrow> real" where
  "evaluateEndgamePosition gameCopy =
     (let position = board gameCopy in
      case (king_pos Black position, king_pos White position) of
        (Some blackKingPos, Some whiteKingPos) \<Rightarrow>
          (let blackKingDistance = max \<bar>real (fst blackKingPos) - 3.5\<bar> \<bar>real (snd blackKingPos) - 3.5\<bar>;
               score = 0 + blackKingDistance * 10;
               kingDistance = max \<bar>real (fst blackKingPos) - real (fst whiteKingPos)\<bar>
                                  \<bar>real (snd blackKingPos) - real (snd whiteKingPos)\<bar>
           in if isDrawnPosition gameCopy then score - kingDistance * 5 else score)
      | _ \<Rightarrow> 0)"

subsection \<open>\<^verbatim>\<open>evaluateIntermediatePosition\<close> (lines 448 to 463)\<close>

definition evaluateIntermediatePosition :: "string list \<Rightarrow> game \<Rightarrow> real" where
  "evaluateIntermediatePosition moveHistory gameCopy =
     (let score = 0;
          isEndgame = isInEndgame gameCopy;
          score = score + evaluatePosition gameCopy;
          score = score + evaluateKingSafety gameCopy isEndgame;
          score = score + evaluatePawnStructure gameCopy;
          score = score + real (length (legal_moves gameCopy)) * 2;
          score = (if length moveHistory < 10
                   then score + evaluateOpeningPrinciples gameCopy 1.0 else score)
      in score)"

subsection \<open>The two declarations of \<^verbatim>\<open>evaluateAdvancedPosition\<close>\<close>

text \<open>
  The component declares \<^verbatim>\<open>function evaluateAdvancedPosition\<close> twice in the same function
  body, at lines 470 to 499 with one parameter and at lines 834 to 873 with two. Function
  declarations are hoisted and the last one of a name is the one bound, so every call
  reaches the second; the first is never run. \<open>evaluateAdvancedPosition_shadowed\<close> is the
  first declaration, \<open>evaluateAdvancedPosition\<close> the second. Its parameter
  \<^verbatim>\<open>isEndgame\<close> is \<open>None\<close> for \<^verbatim>\<open>undefined\<close>, which the test \<^verbatim>\<open>if (isEndgame)\<close> takes
  for false.
\<close>

definition evaluateAdvancedPosition_shadowed :: "string list \<Rightarrow> game \<Rightarrow> real" where
  "evaluateAdvancedPosition_shadowed moveHistory gameCopy =
     (let score = 0;
          isEndgame = isInEndgame gameCopy;
          score = score + evaluatePosition gameCopy * 2;
          score = score + evaluateKingSafety gameCopy isEndgame * 3;
          score = score + evaluateAdvancedPawnStructure gameCopy * 2;
          mobility = real (length (legal_moves gameCopy));
          centerControl = evaluateCenterControl gameCopy;
          score = score + mobility * 5;
          score = score + centerControl * 15;
          score = (if length moveHistory < 15
                   then score + evaluateOpeningPrinciples gameCopy 2.0 else score);
          score = (if isEndgame then score + evaluateEndgamePosition gameCopy * 2 else score);
          score = score - evaluateThreats gameCopy
      in score)"

definition evaluateAdvancedPosition :: "'a position_scheme \<Rightarrow> bool option \<Rightarrow> real" where
  "evaluateAdvancedPosition gameCopy isEndgame =
     (let position = board gameCopy
      in sum_list (map (square_term (isEndgame = Some True) position) squares))"

section \<open>Scoring and selecting\<close>

subsection \<open>Numbers\<close>

text \<open>
  A number of the component is a double. The evaluators above add and multiply integers
  and halves far below \<open>2 ^ 53\<close>, where the arithmetic of doubles is the exact one. The
  products and sums with \<^verbatim>\<open>Math.random()\<close> are rounded: \<open>fl x\<close> is the double nearest to
  \<open>x\<close>, a tie going to the even significand. \<open>expo x\<close> is the exponent of the binade of
  \<open>x\<close> and \<open>ulp x\<close> the distance of two neighbouring doubles there (52 fraction bits,
  subnormal numbers below \<open>2 ^ - 1022\<close>). Overflow to infinity is left out: no number of
  the component comes near \<open>2 ^ 1024\<close>.
\<close>

definition pow2 :: "int \<Rightarrow> real" where
  "pow2 e = (if 0 \<le> e then 2 ^ nat e else 1 / 2 ^ nat (- e))"

text \<open>
  The exponent of a positive number: \<open>2 ^ expo x \<le> x < 2 ^ (expo x + 1)\<close>. The two
  inequalities below are what its recursion needs to end.
\<close>

lemma expo_term1: "0 < x \<Longrightarrow> 2 \<le> x \<Longrightarrow> nat \<lceil>\<bar>log 2 (x / 2)\<bar>\<rceil> < nat \<lceil>\<bar>log 2 x\<bar>\<rceil>"
proof -
  assume x: "0 < x" "2 \<le> x"
  have l: "1 \<le> log 2 x" using x by (simp add: le_log_iff)
  have "log 2 (x / 2) = log 2 x - 1" using x by (simp add: log_divide)
  then show ?thesis using l by (simp add: ceiling_diff_one)
qed

lemma expo_term2: "0 < x \<Longrightarrow> x < 1/2 \<Longrightarrow> nat \<lceil>\<bar>log 2 (x * 2)\<bar>\<rceil> < nat \<lceil>\<bar>log 2 x\<bar>\<rceil>"
proof -
  assume x: "0 < x" "x < 1/2"
  have "log 2 x < log 2 (1/2)" using x by (simp del: log_divide)
  then have l: "log 2 x < - 1" by (simp add: log_divide)
  have "log 2 (x * 2) = log 2 x + 1" using x by (simp add: log_mult)
  then show ?thesis using l by simp
qed

function expo :: "real \<Rightarrow> int" where
  "expo x =
     (if x \<le> 0 then 0
      else if 2 \<le> x then expo (x / 2) + 1
      else if x < 1/2 then expo (x * 2) - 1
      else if x < 1 then - 1
      else 0)"
  by pat_completeness auto
termination
proof (relation "measure (\<lambda>x. nat \<lceil>\<bar>log 2 x\<bar>\<rceil>)")
  show "wf (measure (\<lambda>x. nat \<lceil>\<bar>log 2 x\<bar>\<rceil>))" by (rule wf_measure)
next
  fix x :: real
  assume "\<not> x \<le> 0" and "2 \<le> x"
  then show "(x / 2, x) \<in> measure (\<lambda>x. nat \<lceil>\<bar>log 2 x\<bar>\<rceil>)"
    using expo_term1 [of x] by (simp only: in_measure, linarith?)
next
  fix x :: real
  assume "\<not> x \<le> 0" and "\<not> 2 \<le> x" and "x < 1 / 2"
  then show "(x * 2, x) \<in> measure (\<lambda>x. nat \<lceil>\<bar>log 2 x\<bar>\<rceil>)"
    using expo_term2 [of x] by (simp only: in_measure, linarith?)
qed

declare expo.simps [simp del]

text \<open>The integer nearest to \<open>y\<close>, the even one of the two when \<open>y\<close> lies half-way.\<close>

definition round_even :: "real \<Rightarrow> int" where
  "round_even y =
     (let f = \<lfloor>y\<rfloor>; d = y - of_int f
      in if d < 1/2 then f else if 1/2 < d then f + 1 else if even f then f else f + 1)"

text \<open>The unit in the last place: the exponent of a subnormal number is that of \<open>2 ^ - 1022\<close>.\<close>

definition ulp :: "real \<Rightarrow> real" where
  "ulp x = pow2 (max (expo x) (- 1022) - 52)"

text \<open>Rounding to nearest, of the magnitude; the sign is kept.\<close>

definition fl :: "real \<Rightarrow> real" where
  "fl x =
     (if x = 0 then 0
      else if 0 < x then of_int (round_even (x / ulp x)) * ulp x
      else - (of_int (round_even (- x / ulp (- x))) * ulp (- x)))"

subsection \<open>\<^verbatim>\<open>evaluateAllMoves\<close> (lines 271 to 295)\<close>

record scored =
  sm_move :: move
  sm_score :: real

text \<open>
  The callback of \<^verbatim>\<open>moves.map\<close>, with the \<^verbatim>\<open>Chess\<close> object it mutates passed in and
  out, and \<open>random\<close> the value its one call of \<^verbatim>\<open>Math.random()\<close> returns, a double that
  is at least 0 and less than 1. Every \<^verbatim>\<open>score +=\<close> and every product is rounded. When
  \<^verbatim>\<open>gameCopy.move\<close> throws, the exception leaves the callback.
\<close>

definition score_candidate ::
  "rules \<Rightarrow> Difficulty \<Rightarrow> string list \<Rightarrow> real \<Rightarrow> move \<Rightarrow> chess \<Rightarrow> (error + scored) \<times> chess" where
  "score_candidate engine difficulty moveHistory random m gameCopy =
     (case chess_move engine gameCopy (request_of m) of
        Inl e \<Rightarrow> (Inl e, gameCopy)
      | Inr (made, gameCopy1) \<Rightarrow>
          (let score = 0;
               score = fl (score + evaluateBasicPosition m (current gameCopy1));
               score = (case difficulty of
                          Easy \<Rightarrow> fl (score + fl (random * 50))
                        | Medium \<Rightarrow>
                            (let score =
                                   fl (score + evaluateIntermediatePosition moveHistory (current gameCopy1))
                             in fl (score + fl (random * 20)))
                        | Hard \<Rightarrow>
                            (let score = fl (score + evaluateAdvancedPosition (current gameCopy1) None)
                             in fl (score + fl (random * 5))));
               gameCopy2 = chess_undo gameCopy1
           in (Inr \<lparr>sm_move = m, sm_score = score\<rparr>, gameCopy2)))"

text \<open>
  \<^verbatim>\<open>moves.map\<close>: the candidates in order, the \<open>k\<close>-th one drawing \<open>rnd k\<close>; the first
  exception ends the pass.
\<close>

fun map_candidates ::
  "rules \<Rightarrow> Difficulty \<Rightarrow> string list \<Rightarrow> (nat \<Rightarrow> real) \<Rightarrow> nat \<Rightarrow> move list \<Rightarrow> chess
     \<Rightarrow> (error + scored list) \<times> chess" where
  "map_candidates engine difficulty moveHistory rnd k [] gameCopy = (Inr [], gameCopy)"
| "map_candidates engine difficulty moveHistory rnd k (m # ms) gameCopy =
     (case score_candidate engine difficulty moveHistory (rnd k) m gameCopy of
        (Inl e, gameCopy1) \<Rightarrow> (Inl e, gameCopy1)
      | (Inr s, gameCopy1) \<Rightarrow>
          (case map_candidates engine difficulty moveHistory rnd (k + 1) ms gameCopy1 of
             (Inl e, gameCopy2) \<Rightarrow> (Inl e, gameCopy2)
           | (Inr ss, gameCopy2) \<Rightarrow> (Inr (s # ss), gameCopy2)))"

text \<open>
  \<^verbatim>\<open>.sort((a, b) => b.score - a.score)\<close>: the sort of an array is stable, so the result
  is the one list that is in descending order of score and keeps candidates of equal score
  in their order. The difference of two doubles has the sign of the exact difference.
\<close>

definition sort_descending :: "scored list \<Rightarrow> scored list" where
  "sort_descending ss = sort_key (\<lambda>s. - sm_score s) ss"

definition evaluateAllMoves ::
  "rules \<Rightarrow> Difficulty \<Rightarrow> string list \<Rightarrow> (nat \<Rightarrow> real) \<Rightarrow> move list \<Rightarrow> chess
     \<Rightarrow> (error + scored list) \<times> chess" where
  "evaluateAllMoves engine difficulty moveHistory rnd moves gameCopy =
     (case map_candidates engine difficulty moveHistory rnd 0 moves gameCopy of
        (Inl e, gameCopy1) \<Rightarrow> (Inl e, gameCopy1)
      | (Inr ss, gameCopy1) \<Rightarrow> (Inr (sort_descending ss), gameCopy1))"

subsection \<open>\<^verbatim>\<open>selectMove\<close> (lines 302 to 308)\<close>

fun shortlist :: "Difficulty \<Rightarrow> nat" where
  "shortlist Easy = 5"
| "shortlist Medium = 3"
| "shortlist Hard = 2"

text \<open>
  \<open>random\<close> is the value of \<^verbatim>\<open>Math.random()\<close>, a double that is at least 0 and less
  than 1; its product with the length is rounded before \<^verbatim>\<open>Math.floor\<close> is taken. An index
  outside \<^verbatim>\<open>topMoves\<close> reads \<^verbatim>\<open>undefined\<close>, and \<^verbatim>\<open>undefined.move\<close> throws a
  \<^verbatim>\<open>TypeError\<close>.
\<close>

definition selectMove :: "Difficulty \<Rightarrow> real \<Rightarrow> scored list \<Rightarrow> error + move" where
  "selectMove difficulty random evaluatedMoves =
     (let topMoves = take (shortlist difficulty) evaluatedMoves;
          i = \<lfloor>fl (random * real (length topMoves))\<rfloor>
      in if 0 \<le> i \<and> i < int (length topMoves) then Inr (sm_move (topMoves ! nat i))
         else Inl TypeError)"

subsection \<open>\<^verbatim>\<open>makeComputerMoveWithTimer\<close> (lines 230 to 254)\<close>

text \<open>
  The request the timer will pass to \<^verbatim>\<open>makeAMove\<close> once the thinking time is over, or
  \<open>None\<close> when the function sets no timer. \<open>rnd\<close> are the draws of the scoring pass,
  \<open>random\<close> the draw of the selection. \<^verbatim>\<open>new Chess(game.fen())\<close> is the same position
  with nothing to undo. The clock flag the function sets first and the timer itself are
  left out.
\<close>

definition makeComputerMoveWithTimer ::
  "rules \<Rightarrow> Difficulty \<Rightarrow> string list \<Rightarrow> (nat \<Rightarrow> real) \<Rightarrow> real \<Rightarrow> game
     \<Rightarrow> error + move_request option" where
  "makeComputerMoveWithTimer engine difficulty moveHistory rnd random game =
     (let moves = legal_moves game in
      if 0 < length moves then
        (let gameCopy = new_Chess game in
         case fst (evaluateAllMoves engine difficulty moveHistory rnd moves gameCopy) of
           Inl e \<Rightarrow> Inl e
         | Inr evaluatedMoves \<Rightarrow>
             (case selectMove difficulty random evaluatedMoves of
                Inl e \<Rightarrow> Inl e
              | Inr selectedMove \<Rightarrow>
                  Inr (Some \<lparr>req_from = move_from selectedMove, req_to = move_to selectedMove,
                             req_promotion = Some Queen\<rparr>)))
      else Inr None)"

section \<open>The component's state and \<^verbatim>\<open>makeAMove\<close> (lines 707 to 725)\<close>

record TimeControl =
  tc_name :: string
  tc_initial :: int
  tc_increment :: int

record state =
  st_game :: chess
  st_moveHistory :: "string list"
  st_moveFrom :: string
  st_possibleMoves :: "string list"
  st_isPlayingComputer :: bool
  st_difficulty :: Difficulty
  st_selectedTimeControl :: TimeControl
  st_timeLeft_white :: int
  st_timeLeft_black :: int
  st_isTimerRunning :: bool

text \<open>
  \<^verbatim>\<open>handleMoveComplete\<close> (lines 206 to 221) reads the state of the render that called
  \<^verbatim>\<open>makeAMove\<close> (\<open>old\<close>) and queues its updates on top of the ones already queued
  (\<open>st\<close>).
\<close>

definition handleMoveComplete :: "state \<Rightarrow> state \<Rightarrow> state" where
  "handleMoveComplete old st =
     (if st_isTimerRunning old then
        (let increment = tc_increment (st_selectedTimeControl old) in
         if 0 < increment then
           (if turn (current (st_game old)) = White
            then st\<lparr>st_timeLeft_black := st_timeLeft_black st + increment\<rparr>
            else st\<lparr>st_timeLeft_white := st_timeLeft_white st + increment\<rparr>)
         else st)
      else st\<lparr>st_isTimerRunning := True\<rparr>)"

text \<open>The new state and the value returned.\<close>

definition makeAMove :: "rules \<Rightarrow> state \<Rightarrow> move_request \<Rightarrow> state \<times> bool" where
  "makeAMove engine st req =
     (let gameCopy = new_Chess (current (st_game st)) in
      case chess_move engine gameCopy req of
        Inl e \<Rightarrow> (st, False)
      | Inr (result, gameCopy1) \<Rightarrow>
          (handleMoveComplete st
             (st\<lparr>st_game := gameCopy1,
                 st_moveHistory := st_moveHistory st @ [move_san result],
                 st_moveFrom := [],
                 st_possibleMoves := []\<rparr>),
           True))"

text \<open>
  \<^verbatim>\<open>map\<close> over results that may be exceptions: the list of the values, or the first
  exception.
\<close>

fun first_error :: "(error + 'a) list \<Rightarrow> error + 'a list" where
  "first_error [] = Inr []"
| "first_error (Inl e # rs) = Inl e"
| "first_error (Inr x # rs) = (case first_error rs of Inl e \<Rightarrow> Inl e | Inr xs \<Rightarrow> Inr (x # xs))"

section \<open>A position to run the definitions on\<close>

text \<open>
  A pawn ending with Black to move, \<^verbatim>\<open>7k/6pp/6PP/8/8/8/8/7K b - - 0 40\<close>: the black king
  on h8 behind its pawns on g7 and h7, white pawns on g6 and h6, the white king on h1.
  Black has three legal moves, Kg8, gxh6 and hxg6, in the order the engine lists them;
  after each of them White has five. \<open>pawn_ending_engine\<close> is the engine's move function
  at this position: it finds the legal move by its squares and rejects every other
  request.
\<close>

abbreviation (input) "xx \<equiv> (None :: piece option)"
abbreviation (input) "bP \<equiv> Some (Piece Pawn Black)"
abbreviation (input) "bN \<equiv> Some (Piece Knight Black)"
abbreviation (input) "bB \<equiv> Some (Piece Bishop Black)"
abbreviation (input) "bR \<equiv> Some (Piece Rook Black)"
abbreviation (input) "bQ \<equiv> Some (Piece Queen Black)"
abbreviation (input) "bK \<equiv> Some (Piece King Black)"
abbreviation (input) "wP \<equiv> Some (Piece Pawn White)"
abbreviation (input) "wN \<equiv> Some (Piece Knight White)"
abbreviation (input) "wB \<equiv> Some (Piece Bishop White)"
abbreviation (input) "wR \<equiv> Some (Piece Rook White)"
abbreviation (input) "wQ \<equiv> Some (Piece Queen White)"
abbreviation (input) "wK \<equiv> Some (Piece King White)"

definition empty_rank :: "piece option list" where
  "empty_rank = [xx, xx, xx, xx, xx, xx, xx, xx]"

definition mk_move :: "string \<Rightarrow> string \<Rightarrow> ptype \<Rightarrow> ptype option \<Rightarrow> string \<Rightarrow> move" where
  "mk_move f t p c s =
     \<lparr>move_from = f, move_to = t, move_piece = p, move_captured = c, move_promotion = None,
      move_san = s\<rparr>"

definition king_replies :: "move list" where
  "king_replies = [mk_move ''h1'' ''g2'' King None ''Kg2'', mk_move ''h1'' ''h2'' King None ''Kh2'',
                   mk_move ''h1'' ''g1'' King None ''Kg1'']"

definition m_Kg8 :: move where "m_Kg8 = mk_move ''h8'' ''g8'' King None ''Kg8''"
definition m_gxh6 :: move where "m_gxh6 = mk_move ''g7'' ''h6'' Pawn (Some Pawn) ''gxh6''"
definition m_hxg6 :: move where "m_hxg6 = mk_move ''h7'' ''g6'' Pawn (Some Pawn) ''hxg6''"

definition mk_game :: "piece option list list \<Rightarrow> color \<Rightarrow> nat \<Rightarrow> nat \<Rightarrow> move list \<Rightarrow> game" where
  "mk_game b t h n ms =
     \<lparr>board = b, turn = t, castle_K = False, castle_Q = False, castle_k = False, castle_q = False,
      ep_square = None, half_moves = h, move_number = n,
      legal_moves = ms, isCheck = False, isCheckmate = False, isDraw = False\<rparr>"

definition pawn_ending :: game where
  "pawn_ending = mk_game
     [[xx, xx, xx, xx, xx, xx, xx, bK],
      [xx, xx, xx, xx, xx, xx, bP, bP],
      [xx, xx, xx, xx, xx, xx, wP, wP],
      empty_rank, empty_rank, empty_rank, empty_rank,
      [xx, xx, xx, xx, xx, xx, xx, wK]] Black 0 40 [m_Kg8, m_gxh6, m_hxg6]"

definition after_Kg8 :: game where
  "after_Kg8 = mk_game
     [[xx, xx, xx, xx, xx, xx, bK, xx],
      [xx, xx, xx, xx, xx, xx, bP, bP],
      [xx, xx, xx, xx, xx, xx, wP, wP],
      empty_rank, empty_rank, empty_rank, empty_rank,
      [xx, xx, xx, xx, xx, xx, xx, wK]] White 1 41
     (mk_move ''g6'' ''h7'' Pawn (Some Pawn) ''gxh7+'' # mk_move ''h6'' ''g7'' Pawn (Some Pawn) ''hxg7'' # king_replies)"

definition after_gxh6 :: game where
  "after_gxh6 = mk_game
     [[xx, xx, xx, xx, xx, xx, xx, bK],
      [xx, xx, xx, xx, xx, xx, xx, bP],
      [xx, xx, xx, xx, xx, xx, wP, bP],
      empty_rank, empty_rank, empty_rank, empty_rank,
      [xx, xx, xx, xx, xx, xx, xx, wK]] White 0 41
     (mk_move ''g6'' ''g7'' Pawn None ''g7+'' # mk_move ''g6'' ''h7'' Pawn (Some Pawn) ''gxh7'' # king_replies)"

definition after_hxg6 :: game where
  "after_hxg6 = mk_game
     [[xx, xx, xx, xx, xx, xx, xx, bK],
      [xx, xx, xx, xx, xx, xx, bP, xx],
      [xx, xx, xx, xx, xx, xx, bP, wP],
      empty_rank, empty_rank, empty_rank, empty_rank,
      [xx, xx, xx, xx, xx, xx, xx, wK]] White 0 41
     (mk_move ''h6'' ''h7'' Pawn None ''h7'' # mk_move ''h6'' ''g7'' Pawn (Some Pawn) ''hxg7+'' # king_replies)"

definition pawn_ending_engine :: rules where
  "pawn_ending_engine g req =
     (if g = pawn_ending then
        (if req_from req = ''h8'' \<and> req_to req = ''g8'' then Some (m_Kg8, after_Kg8)
         else if req_from req = ''g7'' \<and> req_to req = ''h6'' then Some (m_gxh6, after_gxh6)
         else if req_from req = ''h7'' \<and> req_to req = ''g6'' then Some (m_hxg6, after_hxg6)
         else None)
      else None)"


text \<open>
  A position with a mate in one, \<^verbatim>\<open>8/8/8/8/8/6pk/8/6BK b - - 4 60\<close>: the black king on
  h3 and a black pawn on g3 against the white king on h1 and a bishop on g1. Black's legal
  moves are g2, which is mate, Kg4 and Kh4; after either king move White has the seven moves
  of the bishop and Kg2.
\<close>

definition bishop_replies :: "move list" where
  "bishop_replies =
     [mk_move ''g1'' ''f2'' Bishop None ''Bf2'', mk_move ''g1'' ''e3'' Bishop None ''Be3'',
      mk_move ''g1'' ''d4'' Bishop None ''Bd4'', mk_move ''g1'' ''c5'' Bishop None ''Bc5'',
      mk_move ''g1'' ''b6'' Bishop None ''Bb6'', mk_move ''g1'' ''a7'' Bishop None ''Ba7'',
      mk_move ''g1'' ''h2'' Bishop None ''Bh2'', mk_move ''h1'' ''g2'' King None ''Kg2'']"

definition m_g2 :: move where "m_g2 = mk_move ''g3'' ''g2'' Pawn None ''g2#''"
definition m_Kg4 :: move where "m_Kg4 = mk_move ''h3'' ''g4'' King None ''Kg4''"
definition m_Kh4 :: move where "m_Kh4 = mk_move ''h3'' ''h4'' King None ''Kh4''"

definition mating_net :: game where
  "mating_net = mk_game
     [empty_rank, empty_rank, empty_rank, empty_rank, empty_rank,
      [xx, xx, xx, xx, xx, xx, bP, bK],
      empty_rank,
      [xx, xx, xx, xx, xx, xx, wB, wK]] Black 4 60 [m_g2, m_Kg4, m_Kh4]"

definition after_g2 :: game where
  "after_g2 = (mk_game
     [empty_rank, empty_rank, empty_rank, empty_rank, empty_rank,
      [xx, xx, xx, xx, xx, xx, xx, bK],
      [xx, xx, xx, xx, xx, xx, bP, xx],
      [xx, xx, xx, xx, xx, xx, wB, wK]] White 0 61 [])
     \<lparr>isCheck := True, isCheckmate := True\<rparr>"

definition after_Kg4 :: game where
  "after_Kg4 = mk_game
     [empty_rank, empty_rank, empty_rank, empty_rank,
      [xx, xx, xx, xx, xx, xx, bK, xx],
      [xx, xx, xx, xx, xx, xx, bP, xx],
      empty_rank,
      [xx, xx, xx, xx, xx, xx, wB, wK]] White 5 61 bishop_replies"

definition after_Kh4 :: game where
  "after_Kh4 = mk_game
     [empty_rank, empty_rank, empty_rank, empty_rank,
      [xx, xx, xx, xx, xx, xx, xx, bK],
      [xx, xx, xx, xx, xx, xx, bP, xx],
      empty_rank,
      [xx, xx, xx, xx, xx, xx, wB, wK]] White 5 61 bishop_replies"

definition mating_net_engine :: rules where
  "mating_net_engine g req =
     (if g = mating_net then
        (if req_from req = ''g3'' \<and> req_to req = ''g2'' then Some (m_g2, after_g2)
         else if req_from req = ''h3'' \<and> req_to req = ''g4'' then Some (m_Kg4, after_Kg4)
         else if req_from req = ''h3'' \<and> req_to req = ''h4'' then Some (m_Kh4, after_Kh4)
         else None)
      else None)"

text \<open>The scores of the three moves at the Easy tier when every random draw is 0.\<close>

definition example_scores :: "scored list" where
  "example_scores =
     [\<lparr>sm_move = m_Kg8, sm_score = 0\<rparr>, \<lparr>sm_move = m_gxh6, sm_score = 200\<rparr>,
      \<lparr>sm_move = m_hxg6, sm_score = 200\<rparr>]"

text \<open>A state of the component at this position, with the clock running.\<close>

definition example_state :: state where
  "example_state =
     \<lparr>st_game = new_Chess pawn_ending, st_moveHistory = [], st_moveFrom = ''h7'',
      st_possibleMoves = [''g6''], st_isPlayingComputer = False, st_difficulty = Easy,
      st_selectedTimeControl = \<lparr>tc_name = ''15|10 Rapid'', tc_initial = 900, tc_increment = 10\<rparr>,
      st_timeLeft_white = 900, st_timeLeft_black = 900, st_isTimerRunning = True\<rparr>"

text \<open>
  The position after 1. e4 d5 2. exd5 Qxd5 3. Qf3 Qxf3 4. Nxf3 Nf6: no queen is left, both
  sides may still castle on either side.
\<close>

definition queenless_opening :: position where
  "queenless_opening =
     \<lparr>board =
        [[bR, bN, bB, xx, bK, bB, xx, bR],
         [bP, bP, bP, xx, bP, bP, bP, bP],
         [xx, xx, xx, xx, xx, bN, xx, xx],
         empty_rank, empty_rank,
         [xx, xx, xx, xx, xx, wN, xx, xx],
         [wP, wP, wP, wP, xx, wP, wP, wP],
         [wR, wN, wB, xx, wK, wB, xx, wR]],
      turn = White, castle_K = True, castle_Q = True, castle_k = True, castle_q = True,
      ep_square = None, half_moves = 1, move_number = 5\<rparr>"

section \<open>The specification's words, for comparison\<close>

text \<open>
  The material term of the Beginner tier as the specification describes it: the value of
  the captured piece plus a tenth of what it is worth more than the capturing piece (the
  factor of the component's unused \<^verbatim>\<open>evaluateMove\<close>, lines 317 to 320).
\<close>

definition beginner_score_spec :: "move \<Rightarrow> game \<Rightarrow> real \<Rightarrow> real" where
  "beginner_score_spec m g random =
     (case move_captured m of
        None \<Rightarrow> 0
      | Some c \<Rightarrow> PIECE_VALUES c + (PIECE_VALUES c - PIECE_VALUES (move_piece m)) / 10)
     + (if isCheck g then 50 else 0)
     + (if isCheckmate g then 10000 else 0)
     - (if isDraw g then 5000 else 0)
     + random * 50"

text \<open>The phase as the specification describes it, counted on the board.\<close>

definition count_on_board :: "ptype list \<Rightarrow> piece option list list \<Rightarrow> nat" where
  "count_on_board ts b =
     length (filter (\<lambda>c. case c of None \<Rightarrow> False | Some p \<Rightarrow> ptype p \<in> set ts) (concat b))"

definition endgame_spec :: "piece option list list \<Rightarrow> bool" where
  "endgame_spec b = (count_on_board [Queen] b = 0 \<or> count_on_board [Rook, Knight, Bishop] b \<le> 6)"

section \<open>The characters of a FEN string\<close>

definition placement_alphabet :: "char set" where
  "placement_alphabet = set ''pnbrqkPNBRQK0123456789/''"

definition fen_alphabet :: "char set" where
  "fen_alphabet = set ''pnbrqkPNBRQK0123456789/ w-acdefgh''"

section \<open>Counting for the statements\<close>

text \<open>The pieces of a rank, or of the board, whose FEN letter is in a class.\<close>

definition on_squares :: "(char \<Rightarrow> bool) \<Rightarrow> piece option list \<Rightarrow> nat" where
  "on_squares P cs =
     length (filter (\<lambda>c. case c of None \<Rightarrow> False | Some p \<Rightarrow> P (piece_char p)) cs)"

text \<open>The en-passant square is on the b-file.\<close>

definition ep_on_b_file :: "'a position_scheme \<Rightarrow> bool" where
  "ep_on_b_file g = (case ep_square g of None \<Rightarrow> False | Some sq \<Rightarrow> fst sq = 1)"

text \<open>The number of squares on which two boards differ.\<close>

definition changed_squares :: "piece option list list \<Rightarrow> piece option list list \<Rightarrow> nat" where
  "changed_squares b1 b2 =
     length (filter (\<lambda>rc. cell b1 (fst rc) (snd rc) \<noteq> cell b2 (fst rc) (snd rc)) squares)"

section \<open>The scoring pass leaves the board as it was\<close>

lemma chess_undo_move:
  "chess_move engine c req = Inr (m, c') \<Longrightarrow> chess_undo c' = c"
  by (auto simp: chess_move_def chess_undo_def split: option.splits)

lemma score_candidate_restores:
  "snd (score_candidate engine difficulty moveHistory random m gameCopy) = gameCopy"
  by (auto simp: score_candidate_def Let_def split: sum.splits dest: chess_undo_move)

lemma map_candidates_restores:
  "snd (map_candidates engine difficulty moveHistory rnd k ms gameCopy) = gameCopy"
proof (induction ms arbitrary: k)
  case Nil
  show ?case by simp
next
  case (Cons m ms)
  have s: "snd (score_candidate engine difficulty moveHistory (rnd k) m gameCopy) = gameCopy"
    by (rule score_candidate_restores)
  show ?case
    using s Cons.IH [of "k + 1"]
    by (auto split: prod.splits sum.splits)
qed

lemma map_candidates_independent:
  "fst (map_candidates engine difficulty moveHistory rnd k ms gameCopy) =
     first_error (map (\<lambda>(i, m). fst (score_candidate engine difficulty moveHistory (rnd i) m gameCopy))
       (enumerate k ms))"
proof (induction ms arbitrary: k)
  case Nil
  show ?case by simp
next
  case (Cons m ms)
  obtain r c where sc: "score_candidate engine difficulty moveHistory (rnd k) m gameCopy = (r, c)"
    by (cases "score_candidate engine difficulty moveHistory (rnd k) m gameCopy")
  have c: "c = gameCopy"
    using score_candidate_restores [of engine difficulty moveHistory "rnd k" m gameCopy] sc by simp
  obtain rs c' where mc: "map_candidates engine difficulty moveHistory rnd (Suc k) ms gameCopy = (rs, c')"
    by (cases "map_candidates engine difficulty moveHistory rnd (Suc k) ms gameCopy")
  have rs: "first_error (map (\<lambda>(i, m). fst (score_candidate engine difficulty moveHistory (rnd i) m gameCopy))
       (enumerate (Suc k) ms)) = rs"
    using Cons.IH [of "Suc k"] mc by simp
  show ?case
  proof (cases r)
    case (Inl e)
    then show ?thesis using sc by simp
  next
    case (Inr x)
    then show ?thesis using sc c mc rs by (cases rs) simp_all
  qed
qed

lemma evaluateAllMoves_map_candidates:
  "evaluateAllMoves engine difficulty moveHistory rnd moves gameCopy =
     (map_sum id sort_descending (fst (map_candidates engine difficulty moveHistory rnd 0 moves gameCopy)),
      snd (map_candidates engine difficulty moveHistory rnd 0 moves gameCopy))"
  by (simp add: evaluateAllMoves_def split: prod.splits sum.splits)

text \<open>
  Claim C2. Whatever the engine, the tier, the candidates and the random draws, the
  \<^verbatim>\<open>Chess\<close> object that \<^verbatim>\<open>evaluateAllMoves\<close> leaves behind is the one it was given,
  also when a candidate is rejected and the pass ends with the exception; and the pass
  returns what scoring every candidate on that one object returns (the first exception, or
  the scores sorted): no candidate sees a change made for an earlier one.
\<close>

theorem evaluateAllMoves_restores_board:
  "snd (evaluateAllMoves engine difficulty moveHistory rnd moves gameCopy) = gameCopy \<and>
   fst (evaluateAllMoves engine difficulty moveHistory rnd moves gameCopy) =
     map_sum id sort_descending
       (first_error (map (\<lambda>(k, m). fst (score_candidate engine difficulty moveHistory (rnd k) m gameCopy))
          (enumerate 0 moves)))"
  using map_candidates_independent [of engine difficulty moveHistory rnd 0 moves gameCopy]
  by (simp add: evaluateAllMoves_map_candidates map_candidates_restores)

section \<open>Rounding to a double\<close>

lemma pow2_powr: "pow2 e = 2 powr real_of_int e"
  by (simp add: pow2_def powr_realpow [symmetric] powr_minus divide_inverse)

lemma pow2_pos: "0 < pow2 e"
  by (simp add: pow2_powr)

lemma pow2_add: "pow2 (a + b) = pow2 a * pow2 b"
  by (simp add: pow2_powr powr_add)

lemma pow2_mono: "a \<le> b \<Longrightarrow> pow2 a \<le> pow2 b"
  by (simp add: pow2_powr)

lemma pow2_less: "a < b \<Longrightarrow> pow2 a < pow2 b"
  by (simp add: pow2_powr)

lemma pow2_less_iff: "(pow2 a < pow2 b) = (a < b)"
  by (simp add: pow2_powr)

lemma pow2_0: "pow2 0 = 1" and pow2_1: "pow2 1 = 2" and pow2_m1: "pow2 (- 1) = 1/2"
  by (simp_all add: pow2_def)

lemma pow2_nat: "pow2 (int n) = 2 ^ n"
  by (simp add: pow2_def)

lemma expo_bounds: "0 < x \<Longrightarrow> pow2 (expo x) \<le> x \<and> x < pow2 (expo x + 1)"
proof (induction x rule: expo.induct)
  case (1 x)
  show ?case
  proof (cases "2 \<le> x")
    case True
    then have e: "expo x = expo (x / 2) + 1" using 1(3) by (subst expo.simps) simp
    have "pow2 (expo (x / 2)) \<le> x / 2 \<and> x / 2 < pow2 (expo (x / 2) + 1)"
      using 1(1) 1(3) True by simp
    then show ?thesis
      unfolding e using pow2_add [of "expo (x / 2)" 1] pow2_add [of "expo (x / 2) + 1" 1]
      by (simp add: pow2_1)
  next
    case nt: False
    show ?thesis
    proof (cases "x < 1/2")
      case True
      then have e: "expo x = expo (x * 2) - 1" using 1(3) nt by (subst expo.simps) simp
      have ih: "pow2 (expo (x * 2)) \<le> x * 2 \<and> x * 2 < pow2 (expo (x * 2) + 1)"
        using 1(2) 1(3) True nt by simp
      have a: "pow2 (expo (x * 2)) = pow2 (expo (x * 2) - 1) * 2"
        using pow2_add [of "expo (x * 2) - 1" 1] by (simp add: pow2_1)
      have b: "pow2 (expo (x * 2) + 1) = pow2 (expo (x * 2)) * 2"
        using pow2_add [of "expo (x * 2)" 1] by (simp add: pow2_1)
      show ?thesis unfolding e using ih a b by simp
    next
      case nh: False
      show ?thesis
      proof (cases "x < 1")
        case True
        then have "expo x = - 1" using 1(3) nt nh by (subst expo.simps) simp
        then show ?thesis using True nh by (simp add: pow2_0 pow2_m1)
      next
        case False
        then have "expo x = 0" using 1(3) nt nh by (subst expo.simps) simp
        then show ?thesis using False nt by (simp add: pow2_0 pow2_1)
      qed
    qed
  qed
qed

lemma expo_unique:
  assumes "pow2 k \<le> x" and "x < pow2 (k + 1)"
  shows "expo x = k"
proof -
  have x: "0 < x" using assms(1) pow2_pos [of k] by linarith
  have b: "pow2 (expo x) \<le> x \<and> x < pow2 (expo x + 1)" using expo_bounds [OF x] .
  have "pow2 k < pow2 (expo x + 1)" using assms(1) b by linarith
  then have 1: "k < expo x + 1" by (simp add: pow2_less_iff)
  have "pow2 (expo x) < pow2 (k + 1)" using assms(2) b by linarith
  then have 2: "expo x < k + 1" by (simp add: pow2_less_iff)
  show ?thesis using 1 2 by linarith
qed

lemma expo_mono:
  assumes "0 < x" and "x \<le> y"
  shows "expo x \<le> expo y"
proof -
  have y: "0 < y" using assms by linarith
  have "pow2 (expo x) < pow2 (expo y + 1)"
    using expo_bounds [OF assms(1)] expo_bounds [OF y] assms(2) by linarith
  then show ?thesis by (simp add: pow2_less_iff)
qed

lemma round_even_int: "round_even (of_int k) = k"
  by (simp add: round_even_def)

lemma round_even_floor: "\<lfloor>y\<rfloor> \<le> round_even y \<and> round_even y \<le> \<lfloor>y\<rfloor> + 1"
  by (simp add: round_even_def Let_def)

lemma round_even_mono:
  assumes "y \<le> z"
  shows "round_even y \<le> round_even z"
proof (cases "\<lfloor>y\<rfloor> = \<lfloor>z\<rfloor>")
  case True
  then show ?thesis using assms by (auto simp: round_even_def Let_def)
next
  case False
  then have "\<lfloor>y\<rfloor> + 1 \<le> \<lfloor>z\<rfloor>" using floor_mono [OF assms] by linarith
  then show ?thesis using round_even_floor [of y] round_even_floor [of z] by linarith
qed

lemma round_even_ge: "of_int k \<le> y \<Longrightarrow> k \<le> round_even y"
  using round_even_mono [of "of_int k" y] by (simp add: round_even_int)

lemma round_even_le: "y \<le> of_int k \<Longrightarrow> round_even y \<le> k"
  using round_even_mono [of y "of_int k"] by (simp add: round_even_int)

lemma ulp_pos: "0 < ulp x"
  by (simp add: ulp_def pow2_pos)

lemma fl_zero: "fl 0 = 0"
  by (simp add: fl_def round_even_def)

lemma fl_minus: "fl (- x) = - fl x"
  by (cases "x = 0") (auto simp: fl_def fl_zero round_even_def)

lemma fl_nonneg: "0 \<le> x \<Longrightarrow> 0 \<le> fl x"
proof -
  assume x: "0 \<le> x"
  have "of_int 0 \<le> x / ulp x" using x ulp_pos [of x] by simp
  then have "0 \<le> round_even (x / ulp x)" by (rule round_even_ge)
  then show ?thesis using x ulp_pos [of x] by (simp add: fl_def)
qed

text \<open>The value rounded lies in the closure of its binade.\<close>

lemma fl_upper:
  assumes "0 < x"
  shows "fl x \<le> pow2 (max (expo x) (- 1022) + 1)"
proof -
  let ?e = "max (expo x) (- 1022)"
  have "?e - 52 + 53 = ?e + 1" by simp
  then have u: "ulp x * pow2 53 = pow2 (?e + 1)"
    using pow2_add [of "?e - 52" 53] by (simp only: ulp_def)
  have "x < pow2 (expo x + 1)" using expo_bounds [OF assms] by simp
  also have "\<dots> \<le> pow2 (?e + 1)" by (rule pow2_mono) simp
  finally have "x < ulp x * pow2 53" using u by simp
  then have "x / ulp x < pow2 53" using ulp_pos [of x] by (simp add: pos_divide_less_eq mult.commute)
  then have "x / ulp x \<le> of_int (2 ^ 53)" by (simp add: pow2_def)
  then have "round_even (x / ulp x) \<le> 2 ^ 53" by (rule round_even_le)
  then have "of_int (round_even (x / ulp x)) \<le> (pow2 53 :: real)"
    by (simp add: pow2_def)
  then have "of_int (round_even (x / ulp x)) * ulp x \<le> pow2 53 * ulp x"
    using ulp_pos [of x] by simp
  then show ?thesis using assms u by (simp add: fl_def mult.commute)
qed

lemma fl_lower:
  assumes "0 < x" and "- 1022 \<le> expo x"
  shows "pow2 (expo x) \<le> fl x"
proof -
  have e: "max (expo x) (- 1022) = expo x" using assms(2) by simp
  have u: "ulp x * pow2 52 = pow2 (expo x)"
    using pow2_add [of "expo x - 52" 52] by (simp add: ulp_def e)
  have "ulp x * pow2 52 \<le> x" using expo_bounds [OF assms(1)] u by simp
  then have "pow2 52 \<le> x / ulp x" using ulp_pos [of x] by (simp add: pos_le_divide_eq mult.commute)
  then have "of_int (2 ^ 52) \<le> x / ulp x" by (simp add: pow2_def)
  then have "2 ^ 52 \<le> round_even (x / ulp x)" by (rule round_even_ge)
  then have "(pow2 52 :: real) \<le> of_int (round_even (x / ulp x))"
    by (simp add: pow2_def)
  then have "pow2 52 * ulp x \<le> of_int (round_even (x / ulp x)) * ulp x"
    using ulp_pos [of x] by simp
  then show ?thesis using assms u by (simp add: fl_def mult.commute)
qed

lemma fl_mono_pos:
  assumes "0 < x" and "x \<le> y"
  shows "fl x \<le> fl y"
proof -
  have y: "0 < y" using assms by linarith
  let ?ex = "max (expo x) (- 1022)" and ?ey = "max (expo y) (- 1022)"
  have le: "?ex \<le> ?ey" using expo_mono [OF assms] by simp
  show ?thesis
  proof (cases "?ex = ?ey")
    case True
    then have u: "ulp x = ulp y" by (simp add: ulp_def)
    have "x / ulp y \<le> y / ulp y" using assms(2) ulp_pos [of y] by (simp add: divide_right_mono)
    then have "round_even (x / ulp y) \<le> round_even (y / ulp y)" by (rule round_even_mono)
    then have "of_int (round_even (x / ulp y)) * ulp y \<le> of_int (round_even (y / ulp y)) * ulp y"
      using ulp_pos [of y] by simp
    then show ?thesis using assms(1) y u by (simp add: fl_def)
  next
    case False
    then have lt: "?ex < ?ey" using le by linarith
    then have ny: "- 1022 \<le> expo y" and ey: "?ey = expo y" by auto
    have "fl x \<le> pow2 (?ex + 1)" by (rule fl_upper [OF assms(1)])
    also have "\<dots> \<le> pow2 (expo y)" using lt ey by (intro pow2_mono) linarith
    also have "\<dots> \<le> fl y" by (rule fl_lower [OF y ny])
    finally show ?thesis .
  qed
qed

lemma fl_mono: "x \<le> y \<Longrightarrow> fl x \<le> fl y"
proof -
  assume xy: "x \<le> y"
  consider "0 < x" | "x \<le> 0" "0 \<le> y" | "y < 0" by linarith
  then show ?thesis
  proof cases
    case 1
    then show ?thesis using xy by (rule fl_mono_pos)
  next
    case 2
    have "fl x \<le> 0" using fl_nonneg [of "- x"] 2(1) by (simp add: fl_minus)
    then show ?thesis using fl_nonneg [OF 2(2)] by linarith
  next
    case 3
    have "fl (- y) \<le> fl (- x)" using 3 xy by (intro fl_mono_pos) auto
    then show ?thesis by (simp add: fl_minus)
  qed
qed

lemma fl_exact:
  assumes "0 \<le> x" and "x / ulp x = of_int k"
  shows "fl x = x"
proof -
  have "of_int (round_even (x / ulp x)) * ulp x = of_int k * ulp x"
    by (simp add: assms(2) round_even_int)
  also have "\<dots> = x" using assms(2) ulp_pos [of x] by (simp add: field_simps)
  finally show ?thesis using assms(1) by (simp add: fl_def)
qed

lemma fl_nat: 
  assumes "n < 2 ^ 53"
  shows "fl (real n) = real n"
proof (cases "n = 0")
  case True
  then show ?thesis by (simp add: fl_zero)
next
  case False
  then have x: "0 < real n" by simp
  have "real n < pow2 53" using assms by (simp add: pow2_def)
  then have "pow2 (expo (real n)) < pow2 53" using expo_bounds [OF x] by linarith
  then have e53: "expo (real n) < 53" by (simp add: pow2_less_iff)
  have "(1::real) \<le> real n" using False by simp
  then have "pow2 0 < pow2 (expo (real n) + 1)" using expo_bounds [OF x] by (simp add: pow2_0)
  then have e0: "0 \<le> expo (real n)" by (simp add: pow2_less_iff)
  let ?e = "expo (real n)"
  have u: "ulp (real n) = pow2 (?e - 52)" using e0 by (simp add: ulp_def)
  have "pow2 (?e - 52) * pow2 (52 - ?e) = 1"
    using pow2_add [of "?e - 52" "52 - ?e"] by (simp add: pow2_0)
  then have inv: "1 / pow2 (?e - 52) = pow2 (52 - ?e)"
    using pow2_pos [of "?e - 52"] by (simp add: field_simps)
  have "pow2 (52 - ?e) = 2 ^ nat (52 - ?e)" using e53 by (simp add: pow2_def)
  then have "real n / ulp (real n) = of_int (int n * 2 ^ nat (52 - ?e))"
    using inv by (simp add: u divide_inverse)
  then show ?thesis by (intro fl_exact [where k = "int n * 2 ^ nat (52 - ?e)"]) simp_all
qed

lemma fl_int:
  assumes "\<bar>k\<bar> < 2 ^ 53"
  shows "fl (of_int k) = of_int k"
proof (cases "0 \<le> k")
  case True
  then have "nat k < 2 ^ 53" using assms by (simp add: nat_less_iff)
  then have "fl (real (nat k)) = real (nat k)" by (rule fl_nat)
  then show ?thesis using True by simp
next
  case False
  then have "nat (- k) < 2 ^ 53" using assms by (simp add: nat_less_iff)
  then have "fl (real (nat (- k))) = real (nat (- k))" by (rule fl_nat)
  moreover have "real (nat (- k)) = of_int (- k)" using False by (subst of_nat_nat) simp_all
  ultimately have "fl (- of_int k) = - of_int k" by simp
  then show ?thesis by (simp add: fl_minus)
qed

text \<open>The rounding of a number whose binade is known.\<close>

lemma fl_binade:
  assumes "pow2 e \<le> x" and "x < pow2 (e + 1)" and "- 1022 \<le> e"
  shows "fl x = of_int (round_even (x / pow2 (e - 52))) * pow2 (e - 52)"
proof -
  have x: "0 < x" using assms(1) pow2_pos [of e] by linarith
  have "expo x = e" using assms(1) assms(2) by (rule expo_unique)
  then have "ulp x = pow2 (e - 52)" using assms(3) by (simp add: ulp_def)
  then show ?thesis using x by (simp add: fl_def)
qed

lemma double_below_one:
  assumes "0 \<le> r" and "r < 1" and "fl r = r"
  shows "r \<le> 1 - 1 / 2 ^ 53"
proof (cases "r < 1/2")
  case True
  have "(1/2 :: real) \<le> 1 - 1 / 2 ^ 53" by simp
  then show ?thesis using True by linarith
next
  case False
  then have "pow2 (- 1) \<le> r" and "r < pow2 (- 1 + 1)" using assms(2) by (simp_all add: pow2_def)
  then have e: "expo r = - 1" by (rule expo_unique)
  have u: "ulp r = 1 / 2 ^ 53" by (simp add: ulp_def e pow2_def)
  define k where "k = round_even (r / ulp r)"
  have "0 < r" using False by simp
  then have "fl r = of_int k * ulp r" by (simp add: fl_def k_def)
  then have r: "r = of_int k / 2 ^ 53" using assms(3) u by simp
  then have "real_of_int k < real_of_int (2 ^ 53)" using assms(2) by simp
  then have "k < 2 ^ 53" by (simp only: of_int_less_iff)
  then have "k \<le> 2 ^ 53 - 1" by simp
  then have "real_of_int k \<le> real_of_int (2 ^ 53 - 1)" by (simp only: of_int_le_iff)
  then have "real_of_int k \<le> 2 ^ 53 - 1" by simp
  then show ?thesis unfolding r by (simp add: field_simps)
qed

lemma below_integer:
  "fl (1 - 1 / 2 ^ 50) < 1" "fl (2 - 1 / 2 ^ 50) < 2" "fl (3 - 1 / 2 ^ 50) < 3"
  "fl (4 - 1 / 2 ^ 50) < 4" "fl (5 - 1 / 2 ^ 50) < 5"
proof -
  show "fl (1 - 1 / 2 ^ 50) < 1"
    by (subst fl_binade [where e = "- 1"]) (simp_all add: pow2_def round_even_def)
  show "fl (2 - 1 / 2 ^ 50) < 2"
    by (subst fl_binade [where e = 0]) (simp_all add: pow2_def round_even_def)
  show "fl (3 - 1 / 2 ^ 50) < 3"
    by (subst fl_binade [where e = 1]) (simp_all add: pow2_def round_even_def)
  show "fl (4 - 1 / 2 ^ 50) < 4"
    by (subst fl_binade [where e = 1]) (simp_all add: pow2_def round_even_def)
  show "fl (5 - 1 / 2 ^ 50) < 5"
    by (subst fl_binade [where e = 2]) (simp_all add: pow2_def round_even_def)
qed

lemma below_integer_nat:
  assumes "0 < n" and "n \<le> 5"
  shows "fl (real n - 1 / 2 ^ 50) < real n"
proof -
  consider "n = 1" | "n = 2" | "n = 3" | "n = 4" | "n = 5" using assms by linarith
  then show ?thesis using below_integer by cases simp_all
qed

lemma largest_products:
  "fl ((1 - 1 / 2 ^ 53) * 1) < 1" "fl ((1 - 1 / 2 ^ 53) * 2) < 2" "fl ((1 - 1 / 2 ^ 53) * 3) < 3"
  "fl ((1 - 1 / 2 ^ 53) * 4) < 4" "fl ((1 - 1 / 2 ^ 53) * 5) < 5"
proof -
  show "fl ((1 - 1 / 2 ^ 53) * 1) < 1"
    by (subst fl_binade [where e = "- 1"]) (simp_all add: pow2_def round_even_def)
  show "fl ((1 - 1 / 2 ^ 53) * 2) < 2"
    by (subst fl_binade [where e = 0]) (simp_all add: pow2_def round_even_def)
  show "fl ((1 - 1 / 2 ^ 53) * 3) < 3"
    by (subst fl_binade [where e = 1]) (simp_all add: pow2_def round_even_def)
  show "fl ((1 - 1 / 2 ^ 53) * 4) < 4"
    by (subst fl_binade [where e = 1]) (simp_all add: pow2_def round_even_def)
  show "fl ((1 - 1 / 2 ^ 53) * 5) < 5"
    by (subst fl_binade [where e = 2]) (simp_all add: pow2_def round_even_def)
qed

lemma largest_product:
  assumes "0 < n" and "n \<le> 5"
  shows "fl ((1 - 1 / 2 ^ 53) * real n) < real n"
proof -
  consider "n = 1" | "n = 2" | "n = 3" | "n = 4" | "n = 5" using assms by linarith
  then show ?thesis using largest_products by cases simp_all
qed

lemma fl_index:
  assumes "0 \<le> r" and "r < 1" and "fl r = r" and "0 < n" and "n \<le> 5"
  shows "0 \<le> fl (r * real n) \<and> fl (r * real n) < real n"
proof -
  have "0 \<le> r * real n" using assms(1) by simp
  then have a: "0 \<le> fl (r * real n)" by (rule fl_nonneg)
  have "r \<le> 1 - 1 / 2 ^ 53" using assms(1-3) by (rule double_below_one)
  then have "r * real n \<le> (1 - 1 / 2 ^ 53) * real n" by (rule mult_right_mono) simp
  then have "fl (r * real n) \<le> fl ((1 - 1 / 2 ^ 53) * real n)" by (rule fl_mono)
  then show ?thesis using a largest_product [OF assms(4) assms(5)] by linarith
qed

lemma fl_floor_interval:
  assumes "0 \<le> x" and "j < 5"
  shows "(real j \<le> x \<and> x \<le> real j + 1 - 1 / 2 ^ 50 \<longrightarrow> nat \<lfloor>fl x\<rfloor> = j) \<and>
         (nat \<lfloor>fl x\<rfloor> = j \<longrightarrow> real j - 1 / 2 ^ 50 \<le> x \<and> x < real j + 1)"
proof -
  have nn: "0 \<le> fl x" using assms(1) by (rule fl_nonneg)
  have j53: "j < 2 ^ 53" "Suc j < 2 ^ 53" using assms(2) by simp_all
  have iff: "(nat \<lfloor>fl x\<rfloor> = j) = (real j \<le> fl x \<and> fl x < real j + 1)"
  proof -
    have "(nat \<lfloor>fl x\<rfloor> = j) = (\<lfloor>fl x\<rfloor> = int j)" using nn by auto
    then show ?thesis by (simp add: floor_eq_iff)
  qed
  have a: "nat \<lfloor>fl x\<rfloor> = j" if lo: "real j \<le> x" and hi: "x \<le> real j + 1 - 1 / 2 ^ 50"
  proof -
    have "fl (real j) \<le> fl x" using lo by (rule fl_mono)
    then have 1: "real j \<le> fl x" by (simp add: fl_nat [OF j53(1)])
    have "x \<le> real (Suc j) - 1 / 2 ^ 50" using hi by simp
    then have "fl x \<le> fl (real (Suc j) - 1 / 2 ^ 50)" by (rule fl_mono)
    also have "\<dots> < real (Suc j)" using assms(2) by (intro below_integer_nat) simp_all
    finally have 2: "fl x < real j + 1" by simp
    show ?thesis using iff 1 2 by simp
  qed
  have b: "real j - 1 / 2 ^ 50 \<le> x \<and> x < real j + 1" if eq: "nat \<lfloor>fl x\<rfloor> = j"
  proof -
    have 1: "real j \<le> fl x" and 2: "fl x < real j + 1" using iff eq by simp_all
    have lo: "real j - 1 / 2 ^ 50 \<le> x"
    proof (rule ccontr)
      assume "\<not> real j - 1 / 2 ^ 50 \<le> x"
      then have lt: "x \<le> real j - 1 / 2 ^ 50" by simp
      then have "real j \<noteq> 0" using assms(1) by auto
      then have j0: "0 < j" by simp
      have "fl x \<le> fl (real j - 1 / 2 ^ 50)" using lt by (rule fl_mono)
      also have "\<dots> < real j" using j0 assms(2) by (intro below_integer_nat) simp_all
      finally show False using 1 by simp
    qed
    have hi: "x < real j + 1"
    proof (rule ccontr)
      assume "\<not> x < real j + 1"
      then have "real (Suc j) \<le> x" by simp
      then have "fl (real (Suc j)) \<le> fl x" by (rule fl_mono)
      then have "real (Suc j) \<le> fl x" by (simp only: fl_nat [OF j53(2)])
      then show False using 2 by simp
    qed
    show ?thesis using lo hi by simp
  qed
  show ?thesis using a b by blast
qed

lemma fl_Ints:
  assumes "x \<in> \<int>" and "\<bar>x\<bar> < 2 ^ 53"
  shows "fl x = x"
proof -
  from assms(1) obtain k where k: "x = of_int k" by (rule Ints_cases)
  have "real_of_int \<bar>k\<bar> < real_of_int (2 ^ 53)" using assms(2) k by simp
  then have "\<bar>k\<bar> < 2 ^ 53" by (simp only: of_int_less_iff)
  then show ?thesis unfolding k by (rule fl_int)
qed

lemma fl_le_int: "x \<le> of_int k \<Longrightarrow> \<bar>k\<bar> < 2 ^ 53 \<Longrightarrow> fl x \<le> of_int k"
  using fl_mono [of x "of_int k"] fl_int [of k] by simp

lemma fl_ge_int: "of_int k \<le> x \<Longrightarrow> \<bar>k\<bar> < 2 ^ 53 \<Longrightarrow> of_int k \<le> fl x"
  using fl_mono [of "of_int k" x] fl_int [of k] by simp

section \<open>The score of a candidate\<close>

lemma evaluateBasicPosition_sum:
  "evaluateBasicPosition m g =
     (case move_captured m of None \<Rightarrow> 0 | Some c \<Rightarrow> PIECE_VALUES c * 2)
     + (if isCheck g then 50 else 0)
     + (if isCheckmate g then 10000 else 0)
     - (if isDraw g then 5000 else 0)"
  by (simp add: evaluateBasicPosition_def Let_def split: option.splits)

lemma PIECE_VALUES_Ints:
  "PIECE_VALUES c \<in> \<int> \<and> 0 \<le> PIECE_VALUES c \<and> PIECE_VALUES c \<le> 20000"
  by (cases c) simp_all

lemma evaluateBasicPosition_Ints:
  "evaluateBasicPosition m g \<in> \<int> \<and> \<bar>evaluateBasicPosition m g\<bar> \<le> 50050"
proof (cases "move_captured m")
  case None
  then show ?thesis by (simp add: evaluateBasicPosition_sum)
next
  case (Some c)
  then show ?thesis using PIECE_VALUES_Ints [of c] by (auto simp: evaluateBasicPosition_sum)
qed

text \<open>The basic score is an integer, which the first \<^verbatim>\<open>score +=\<close> leaves as it is.\<close>

lemma evaluateBasicPosition_exact: "fl (evaluateBasicPosition m g) = evaluateBasicPosition m g"
  using evaluateBasicPosition_Ints [of m g] by (intro fl_Ints) simp_all

lemma score_candidate_accepted:
  assumes "engine (current gameCopy) (request_of m) = Some (made, g)"
  shows "score_candidate engine difficulty moveHistory random m gameCopy =
     (Inr \<lparr>sm_move = m, sm_score =
        (case difficulty of
           Easy \<Rightarrow> fl (evaluateBasicPosition m g + fl (random * 50))
         | Medium \<Rightarrow>
             fl (fl (evaluateBasicPosition m g + evaluateIntermediatePosition moveHistory g)
                 + fl (random * 20))
         | Hard \<Rightarrow>
             fl (fl (evaluateBasicPosition m g + evaluateAdvancedPosition g None)
                 + fl (random * 5)))\<rparr>,
      gameCopy)"
  using assms
  by (cases difficulty)
    (simp_all add: score_candidate_def chess_move_def chess_undo_def Let_def
       evaluateBasicPosition_exact)

lemma engine_hxg6:
  "pawn_ending_engine (current (new_Chess pawn_ending)) (request_of m_hxg6) = Some (m_hxg6, after_hxg6)"
  by (simp add: pawn_ending_engine_def new_Chess_def request_of_def m_hxg6_def mk_move_def)

lemma after_hxg6_flags:
  "isCheck after_hxg6 = False" "isCheckmate after_hxg6 = False" "isDraw after_hxg6 = False"
  by (simp_all add: after_hxg6_def mk_game_def)

lemma m_hxg6_fields:
  "move_captured m_hxg6 = Some Pawn" "move_piece m_hxg6 = Pawn"
  by (simp_all add: m_hxg6_def mk_move_def)

lemma basic_hxg6:
  "(case move_captured m_hxg6 of None \<Rightarrow> 0 | Some c \<Rightarrow> PIECE_VALUES c * 2)
     + (if isCheck after_hxg6 then 50 else 0)
     + (if isCheckmate after_hxg6 then 10000 else 0)
     - (if isDraw after_hxg6 then 5000 else 0) = 200"
  by (simp add: after_hxg6_flags m_hxg6_fields)

text \<open>
  Claim C8, as amended. At the Easy tier the score of a candidate the engine accepts is
  the sum, rounded to a double, of a base and a jitter. The base is twice the value of the
  captured piece (nothing for a move that captures nothing, and whatever the capturing
  piece is), plus 50 when the move gives check, plus 10000 when it gives checkmate, minus
  5000 when the position reached is a draw; the jitter is 50 times \<^verbatim>\<open>Math.random()\<close>,
  rounded to a double. No positional term enters. For a draw that is at least 0 and less
  than 1 the jitter lies between 0 and 50 and the score between the base and the base
  plus 50, both ends included.
\<close>

theorem beginner_score:
  assumes "engine (current gameCopy) (request_of m) = Some (made, g)"
  shows "(let base = (case move_captured m of None \<Rightarrow> 0 | Some c \<Rightarrow> PIECE_VALUES c * 2)
                     + (if isCheck g then 50 else 0)
                     + (if isCheckmate g then 10000 else 0)
                     - (if isDraw g then 5000 else 0);
              jitter = fl (random * 50)
          in score_candidate engine Easy moveHistory random m gameCopy =
               (Inr \<lparr>sm_move = m, sm_score = fl (base + jitter)\<rparr>, gameCopy) \<and>
             (0 \<le> random \<and> random < 1 \<longrightarrow>
                0 \<le> jitter \<and> jitter \<le> 50 \<and>
                base \<le> fl (base + jitter) \<and> fl (base + jitter) \<le> base + 50))"
proof -
  let ?base = "evaluateBasicPosition m g"
  let ?jitter = "fl (random * 50)"
  have eq: "score_candidate engine Easy moveHistory random m gameCopy =
              (Inr \<lparr>sm_move = m, sm_score = fl (?base + ?jitter)\<rparr>, gameCopy)"
    using score_candidate_accepted
      [where engine = engine and gameCopy = gameCopy and m = m and difficulty = Easy, OF assms]
    by simp
  have bnd: "0 \<le> ?jitter \<and> ?jitter \<le> 50 \<and>
             ?base \<le> fl (?base + ?jitter) \<and> fl (?base + ?jitter) \<le> ?base + 50"
    if r: "0 \<le> random \<and> random < 1"
  proof -
    have j0: "0 \<le> ?jitter" using r by (intro fl_nonneg) simp
    have "?jitter \<le> fl 50" using r by (intro fl_mono) simp
    then have j50: "?jitter \<le> 50" using fl_int [of 50] by simp
    have "fl ?base \<le> fl (?base + ?jitter)" using j0 by (intro fl_mono) simp
    then have lo: "?base \<le> fl (?base + ?jitter)" by (simp add: evaluateBasicPosition_exact)
    have "?base + 50 \<in> \<int>" and "\<bar>?base + 50\<bar> < 2 ^ 53"
      using evaluateBasicPosition_Ints [of m g] by auto
    then have e: "fl (?base + 50) = ?base + 50" by (rule fl_Ints)
    have "fl (?base + ?jitter) \<le> fl (?base + 50)" using j50 by (intro fl_mono) simp
    then have hi: "fl (?base + ?jitter) \<le> ?base + 50" using e by simp
    show ?thesis using j0 j50 lo hi by simp
  qed
  show ?thesis
    using eq bnd unfolding Let_def evaluateBasicPosition_sum by blast
qed

theorem beginner_score_witness:
  "score_candidate pawn_ending_engine Easy [] (1/2 + 1 / 2 ^ 52) m_hxg6 (new_Chess pawn_ending) =
     (Inr \<lparr>sm_move = m_hxg6, sm_score = 225\<rparr>, new_Chess pawn_ending) \<and>
   fl ((1/2 + 1 / 2 ^ 52) * 50) = 25 + 3 / 2 ^ 48 \<and>
   score_candidate pawn_ending_engine Easy [] (1 - 1 / 2 ^ 52) m_hxg6 (new_Chess pawn_ending) =
     (Inr \<lparr>sm_move = m_hxg6, sm_score = 250\<rparr>, new_Chess pawn_ending) \<and>
   fl ((1 - 1 / 2 ^ 52) * 50) = 50 - 1 / 2 ^ 46"
proof -
  have j1: "fl ((1/2 + 1 / 2 ^ 52) * 50) = 25 + 3 / 2 ^ 48"
    by (subst fl_binade [where e = 4]) (simp_all add: pow2_def round_even_def)
  have s1: "fl (200 + (25 + 3 / 2 ^ 48)) = 225"
    by (subst fl_binade [where e = 7]) (simp_all add: pow2_def round_even_def)
  have j2: "fl ((1 - 1 / 2 ^ 52) * 50) = 50 - 1 / 2 ^ 46"
    by (subst fl_binade [where e = 5]) (simp_all add: pow2_def round_even_def)
  have s2: "fl (200 + (50 - 1 / 2 ^ 46)) = 250"
    by (subst fl_binade [where e = 7]) (simp_all add: pow2_def round_even_def)
  have a: "score_candidate pawn_ending_engine Easy [] (1/2 + 1 / 2 ^ 52) m_hxg6 (new_Chess pawn_ending) =
     (Inr \<lparr>sm_move = m_hxg6, sm_score = 225\<rparr>, new_Chess pawn_ending)"
    using beginner_score
      [where engine = pawn_ending_engine and gameCopy = "new_Chess pawn_ending" and m = m_hxg6
         and moveHistory = "[]" and random = "1/2 + 1 / 2 ^ 52", OF engine_hxg6]
    unfolding Let_def basic_hxg6 j1 s1 by (rule conjunct1)
  have b: "score_candidate pawn_ending_engine Easy [] (1 - 1 / 2 ^ 52) m_hxg6 (new_Chess pawn_ending) =
     (Inr \<lparr>sm_move = m_hxg6, sm_score = 250\<rparr>, new_Chess pawn_ending)"
    using beginner_score
      [where engine = pawn_ending_engine and gameCopy = "new_Chess pawn_ending" and m = m_hxg6
         and moveHistory = "[]" and random = "1 - 1 / 2 ^ 52", OF engine_hxg6]
    unfolding Let_def basic_hxg6 j2 s2 by (rule conjunct1)
  show ?thesis using a b j1 j2 by simp
qed

text \<open>
  The claim as stated fails where a pawn takes a pawn: the specification's material term is
  100 there (the bonus is nothing between equal pieces), the component's is 200.
\<close>

theorem beginner_material_counterexample:
  "fst (score_candidate pawn_ending_engine Easy [] 0 m_hxg6 (new_Chess pawn_ending)) =
     Inr \<lparr>sm_move = m_hxg6, sm_score = 200\<rparr> \<and>
   beginner_score_spec m_hxg6 after_hxg6 0 = 100"
proof -
  have f: "fl 200 = 200" using fl_int [of 200] by simp
  show ?thesis
    using score_candidate_accepted
      [where engine = pawn_ending_engine and gameCopy = "new_Chess pawn_ending" and m = m_hxg6
         and difficulty = Easy and moveHistory = "[]" and random = 0, OF engine_hxg6]
    by (simp add: fl_zero f evaluateBasicPosition_sum beginner_score_spec_def after_hxg6_flags
        m_hxg6_fields)
qed

section \<open>The move selector\<close>

lemma shortlist_cases:
  "shortlist difficulty = (case difficulty of Easy \<Rightarrow> 5 | Medium \<Rightarrow> 3 | Hard \<Rightarrow> 2)"
  by (cases difficulty) simp_all

lemma shortlist_bounds: "0 < shortlist difficulty \<and> shortlist difficulty \<le> 5"
  by (cases difficulty) simp_all

lemma selectMove_index:
  assumes "evaluatedMoves \<noteq> []" "0 \<le> random" "random < 1" "fl random = random"
  shows "nat \<lfloor>fl (random * real (min (shortlist difficulty) (length evaluatedMoves)))\<rfloor>
           < min (shortlist difficulty) (length evaluatedMoves) \<and>
         selectMove difficulty random evaluatedMoves =
           Inr (sm_move (evaluatedMoves !
             nat \<lfloor>fl (random * real (min (shortlist difficulty) (length evaluatedMoves)))\<rfloor>))"
proof -
  let ?n = "min (shortlist difficulty) (length evaluatedMoves)"
  have n: "0 < ?n" using assms(1) shortlist_bounds [of difficulty] by simp
  have n5: "?n \<le> 5" using shortlist_bounds [of difficulty] by (auto simp: min_def)
  have f: "0 \<le> fl (random * real ?n) \<and> fl (random * real ?n) < real ?n"
    using fl_index [OF assms(2) assms(3) assms(4) n n5] .
  have i: "0 \<le> \<lfloor>fl (random * real ?n)\<rfloor> \<and> \<lfloor>fl (random * real ?n)\<rfloor> < int ?n"
    using f by (simp add: floor_less_iff)
  have l: "length (take (shortlist difficulty) evaluatedMoves) = ?n" by simp
  have lt: "nat \<lfloor>fl (random * real ?n)\<rfloor> < ?n" using i by linarith
  have "selectMove difficulty random evaluatedMoves =
          Inr (sm_move (take (shortlist difficulty) evaluatedMoves ! nat \<lfloor>fl (random * real ?n)\<rfloor>))"
    unfolding selectMove_def Let_def l using i by simp
  moreover have "take (shortlist difficulty) evaluatedMoves ! nat \<lfloor>fl (random * real ?n)\<rfloor>
      = evaluatedMoves ! nat \<lfloor>fl (random * real ?n)\<rfloor>"
    using lt by simp
  ultimately show ?thesis using lt by simp
qed

lemma sort_descending_props:
  "sorted (map (\<lambda>s. - sm_score s) (sort_descending scores)) \<and>
   mset (sort_descending scores) = mset scores \<and>
   (\<forall>v. filter (\<lambda>s. sm_score s = v) (sort_descending scores) = filter (\<lambda>s. sm_score s = v) scores)"
proof -
  have "filter (\<lambda>s. sm_score s = v) (sort_descending scores) = filter (\<lambda>s. sm_score s = v) scores" for v
  proof -
    have "filter (\<lambda>s. - sm_score s = - v) (sort_key (\<lambda>s. - sm_score s) scores)
            = filter (\<lambda>s. - sm_score s = - v) scores"
      by (rule sort_key_stable)
    then show ?thesis by (simp add: sort_descending_def)
  qed
  then show ?thesis by (simp add: sort_descending_def)
qed

lemma score_candidate_move:
  "fst (score_candidate engine difficulty moveHistory random m gameCopy) = Inr s \<Longrightarrow> sm_move s = m"
  by (auto simp: score_candidate_def Let_def split: sum.splits)

lemma map_candidates_moves:
  "fst (map_candidates engine difficulty moveHistory rnd k ms gameCopy) = Inr ss \<Longrightarrow> map sm_move ss = ms"
proof (induction ms arbitrary: k ss gameCopy)
  case Nil
  then show ?case by simp
next
  case (Cons m ms)
  obtain r c where sc: "score_candidate engine difficulty moveHistory (rnd k) m gameCopy = (r, c)"
    by (cases "score_candidate engine difficulty moveHistory (rnd k) m gameCopy")
  obtain rs c' where mc: "map_candidates engine difficulty moveHistory rnd (k + 1) ms c = (rs, c')"
    by (cases "map_candidates engine difficulty moveHistory rnd (k + 1) ms c")
  from Cons.prems sc mc obtain s ss' where r: "r = Inr s" and rs: "rs = Inr ss'" and ss: "ss = s # ss'"
    by (cases r; cases rs) auto
  have "sm_move s = m"
    using score_candidate_move [of engine difficulty moveHistory "rnd k" m gameCopy s] sc r by simp
  moreover have "map sm_move ss' = ms"
    using Cons.IH [of "k + 1" c ss'] mc rs by simp
  ultimately show ?case using ss by simp
qed

lemma evaluateAllMoves_sorted_scores:
  assumes "fst (evaluateAllMoves engine difficulty moveHistory rnd moves gameCopy) = Inr ss"
  shows "\<exists>scores. ss = sort_descending scores \<and> map sm_move scores = moves"
proof -
  obtain r c where mc: "map_candidates engine difficulty moveHistory rnd 0 moves gameCopy = (r, c)"
    by (cases "map_candidates engine difficulty moveHistory rnd 0 moves gameCopy")
  from assms mc obtain scores where r: "r = Inr scores" and ss: "ss = sort_descending scores"
    by (cases r) (auto simp: evaluateAllMoves_def)
  have "map sm_move scores = moves"
    using map_candidates_moves [of engine difficulty moveHistory rnd 0 moves gameCopy scores] mc r
    by simp
  then show ?thesis using ss by blast
qed

text \<open>
  Claim C3. The sort is the last step of \<^verbatim>\<open>evaluateAllMoves\<close>, and \<^verbatim>\<open>selectMove\<close> is
  given its result. For every non-empty list of scored candidates and every double
  \<^verbatim>\<open>Math.random()\<close> can return, the sorted list is in descending order of score, has the
  same elements and keeps candidates of equal score in their order; the shortlist is its
  prefix of 5 elements at the tier Easy, 3 at Medium and 2 at Hard, or the whole list when
  that is shorter; the move returned is the one at index \<open>\<lfloor>fl (random * n)\<rfloor>\<close> of the
  shortlist of \<open>n\<close> elements, and it is one of the candidates. The draw is uniform as far
  as doubles allow: index \<open>j\<close> is returned whenever \<open>random * n\<close> lies between \<open>j\<close> and
  \<open>j + 1 - 2 ^ - 50\<close>, and only when it lies between \<open>j - 2 ^ - 50\<close> and \<open>j + 1\<close>, so each
  index has an interval of length \<open>1/n\<close> for \<open>random\<close>, up to the rounding of the product
  (the double nearest to 0.6 times 5 is rounded to 3 and returns index 3). Whenever
  \<^verbatim>\<open>evaluateAllMoves\<close> returns for a non-empty list of moves, what it returns is such a
  sorted list with one score for each move, and \<^verbatim>\<open>selectMove\<close> returns one of the moves
  passed in.
\<close>

theorem move_selector:
  assumes "scores \<noteq> []" and "0 \<le> random" and "random < 1" and "fl random = random"
  shows "sorted (map (\<lambda>s. - sm_score s) (sort_descending scores)) \<and>
         mset (sort_descending scores) = mset scores \<and>
         (\<forall>v. filter (\<lambda>s. sm_score s = v) (sort_descending scores) =
              filter (\<lambda>s. sm_score s = v) scores) \<and>
         (let n = min (case difficulty of Easy \<Rightarrow> 5 | Medium \<Rightarrow> 3 | Hard \<Rightarrow> 2) (length scores);
              i = nat \<lfloor>fl (random * real n)\<rfloor>
          in i < n \<and>
             selectMove difficulty random (sort_descending scores) =
               Inr (sm_move (take n (sort_descending scores) ! i)) \<and>
             sm_move (take n (sort_descending scores) ! i) \<in> sm_move ` set scores \<and>
             (\<forall>j<n. (real j \<le> random * real n \<and> random * real n \<le> real j + 1 - 1 / 2 ^ 50
                       \<longrightarrow> i = j) \<and>
                    (i = j
                       \<longrightarrow> real j - 1 / 2 ^ 50 \<le> random * real n \<and> random * real n < real j + 1))) \<and>
         (\<forall>engine moveHistory rnd moves gameCopy evaluatedMoves.
            moves \<noteq> [] \<and>
            fst (evaluateAllMoves engine difficulty moveHistory rnd moves gameCopy) = Inr evaluatedMoves
            \<longrightarrow> (\<exists>candidates. map sm_move candidates = moves \<and>
                   evaluatedMoves = sort_descending candidates) \<and>
                (\<exists>m\<in>set moves. selectMove difficulty random evaluatedMoves = Inr m))"
proof -
  let ?ranked = "sort_descending scores"
  let ?n = "min (shortlist difficulty) (length scores)"
  let ?i = "nat \<lfloor>fl (random * real ?n)\<rfloor>"
  have len: "length ?ranked = length scores" by (simp add: sort_descending_def)
  have ne: "?ranked \<noteq> []" using assms(1) len by auto
  have n5: "?n \<le> 5" using shortlist_bounds [of difficulty] by (auto simp: min_def)
  have sel: "?i < ?n \<and> selectMove difficulty random ?ranked = Inr (sm_move (?ranked ! ?i))"
    using selectMove_index [OF ne assms(2) assms(3) assms(4), of difficulty] len by simp
  then have i: "?i < ?n" by simp
  have tk: "take ?n ?ranked ! ?i = ?ranked ! ?i" using i by simp
  have "?ranked ! ?i \<in> set ?ranked" using i len by simp
  then have mem: "sm_move (?ranked ! ?i) \<in> sm_move ` set scores"
    by (simp add: sort_descending_def)
  have x0: "0 \<le> random * real ?n" using assms(2) by simp
  have uni: "\<forall>j<?n. (real j \<le> random * real ?n \<and> random * real ?n \<le> real j + 1 - 1 / 2 ^ 50
                       \<longrightarrow> ?i = j) \<and>
                    (?i = j
                       \<longrightarrow> real j - 1 / 2 ^ 50 \<le> random * real ?n \<and> random * real ?n < real j + 1)"
  proof (intro allI impI)
    fix j assume "j < ?n"
    then have "j < 5" using n5 by linarith
    then show "(real j \<le> random * real ?n \<and> random * real ?n \<le> real j + 1 - 1 / 2 ^ 50
                       \<longrightarrow> ?i = j) \<and>
                    (?i = j
                       \<longrightarrow> real j - 1 / 2 ^ 50 \<le> random * real ?n \<and> random * real ?n < real j + 1)"
      by (rule fl_floor_interval [OF x0])
  qed
  have pipe: "(\<exists>candidates. map sm_move candidates = moves \<and> evaluatedMoves = sort_descending candidates) \<and>
              (\<exists>m\<in>set moves. selectMove difficulty random evaluatedMoves = Inr m)"
    if mv: "moves \<noteq> []"
      and ev: "fst (evaluateAllMoves engine difficulty moveHistory rnd moves gameCopy) = Inr evaluatedMoves"
    for engine moveHistory rnd moves gameCopy evaluatedMoves
  proof -
    from evaluateAllMoves_sorted_scores [OF ev] obtain candidates
      where c: "evaluatedMoves = sort_descending candidates" "map sm_move candidates = moves"
      by blast
    have l: "length evaluatedMoves = length moves"
      using arg_cong [OF c(2), of length] c(1) by (simp add: sort_descending_def)
    then have ne': "evaluatedMoves \<noteq> []" using mv by auto
    let ?k = "nat \<lfloor>fl (random * real (min (shortlist difficulty) (length evaluatedMoves)))\<rfloor>"
    have s: "?k < min (shortlist difficulty) (length evaluatedMoves) \<and>
             selectMove difficulty random evaluatedMoves = Inr (sm_move (evaluatedMoves ! ?k))"
      using selectMove_index [OF ne' assms(2) assms(3) assms(4)] .
    then have "evaluatedMoves ! ?k \<in> set candidates"
      using c(1) nth_mem [of ?k evaluatedMoves] by (simp add: sort_descending_def)
    then have "sm_move (evaluatedMoves ! ?k) \<in> set (map sm_move candidates)" by simp
    then have "sm_move (evaluatedMoves ! ?k) \<in> set moves" unfolding c(2) .
    then show ?thesis using s c by blast
  qed
  have pipe': "\<forall>engine moveHistory rnd moves gameCopy evaluatedMoves.
            moves \<noteq> [] \<and>
            fst (evaluateAllMoves engine difficulty moveHistory rnd moves gameCopy) = Inr evaluatedMoves
            \<longrightarrow> (\<exists>candidates. map sm_move candidates = moves \<and>
                   evaluatedMoves = sort_descending candidates) \<and>
                (\<exists>m\<in>set moves. selectMove difficulty random evaluatedMoves = Inr m)"
    using pipe by blast
  have pick: "?i < ?n \<and>
             selectMove difficulty random ?ranked = Inr (sm_move (take ?n ?ranked ! ?i)) \<and>
             sm_move (take ?n ?ranked ! ?i) \<in> sm_move ` set scores \<and>
             (\<forall>j<?n. (real j \<le> random * real ?n \<and> random * real ?n \<le> real j + 1 - 1 / 2 ^ 50
                       \<longrightarrow> ?i = j) \<and>
                    (?i = j
                       \<longrightarrow> real j - 1 / 2 ^ 50 \<le> random * real ?n \<and> random * real ?n < real j + 1))"
    using sel tk mem uni by simp
  show ?thesis
    unfolding Let_def shortlist_cases [symmetric]
    using sort_descending_props [of scores] pick pipe' by blast
qed

theorem move_selector_witness:
  "selectMove Easy (5404319552844595 / 2 ^ 53) (sort_descending (example_scores @ example_scores)) =
     Inr m_hxg6 \<and>
   map sm_move (sort_descending (example_scores @ example_scores)) =
     [m_gxh6, m_hxg6, m_gxh6, m_hxg6, m_Kg8, m_Kg8] \<and>
   nat \<lfloor>fl (5404319552844595 / 2 ^ 53 * 5)\<rfloor> = 3 \<and>
   selectMove Medium (3/4) (sort_descending example_scores) = Inr m_Kg8 \<and>
   selectMove Hard (3/4) (sort_descending example_scores) = Inr m_hxg6 \<and>
   map sm_move (sort_descending example_scores) = [m_gxh6, m_hxg6, m_Kg8]"
proof -
  have h1: "example_scores @ example_scores \<noteq> []" by (simp add: example_scores_def)
  have h1': "example_scores \<noteq> []" by (simp add: example_scores_def)
  have h2: "(0::real) \<le> 5404319552844595 / 2 ^ 53" by simp
  have h3: "(5404319552844595 / 2 ^ 53 :: real) < 1" by simp
  have h4: "fl (5404319552844595 / 2 ^ 53) = 5404319552844595 / 2 ^ 53"
    by (subst fl_binade [where e = "- 1"]) (simp_all add: pow2_def round_even_def)
  have g2: "(0::real) \<le> 3/4" by simp
  have g3: "(3/4::real) < 1" by simp
  have g4: "fl (3/4) = 3/4"
    by (subst fl_binade [where e = "- 1"]) (simp_all add: pow2_def round_even_def)
  have srt2: "sort_descending (example_scores @ example_scores) =
      [\<lparr>sm_move = m_gxh6, sm_score = 200\<rparr>, \<lparr>sm_move = m_hxg6, sm_score = 200\<rparr>,
       \<lparr>sm_move = m_gxh6, sm_score = 200\<rparr>, \<lparr>sm_move = m_hxg6, sm_score = 200\<rparr>,
       \<lparr>sm_move = m_Kg8, sm_score = 0\<rparr>, \<lparr>sm_move = m_Kg8, sm_score = 0\<rparr>]"
    by (simp add: sort_descending_def example_scores_def)
  have srt: "sort_descending example_scores =
      [\<lparr>sm_move = m_gxh6, sm_score = 200\<rparr>, \<lparr>sm_move = m_hxg6, sm_score = 200\<rparr>,
       \<lparr>sm_move = m_Kg8, sm_score = 0\<rparr>]"
    by (simp add: sort_descending_def example_scores_def)
  have len: "length example_scores = 3" by (simp add: example_scores_def)
  have i5: "nat \<lfloor>fl (5404319552844595 / 2 ^ 53 * 5)\<rfloor> = 3"
    by (subst fl_binade [where e = 1]) (simp_all add: pow2_def round_even_def)
  have i3: "nat \<lfloor>fl (9/4)\<rfloor> = 2"
    by (subst fl_binade [where e = 1]) (simp_all add: pow2_def round_even_def)
  have i2: "nat \<lfloor>fl (3/2)\<rfloor> = 1"
    by (subst fl_binade [where e = 0]) (simp_all add: pow2_def round_even_def)
  have a: "selectMove Easy (5404319552844595 / 2 ^ 53) (sort_descending (example_scores @ example_scores)) =
     Inr m_hxg6"
    using move_selector [OF h1 h2 h3 h4, of Easy] i5 by (simp add: Let_def srt2 len)
  have b: "selectMove Medium (3/4) (sort_descending example_scores) = Inr m_Kg8"
    using move_selector [OF h1' g2 g3 g4, of Medium] i3 by (simp add: Let_def srt len)
  have c: "selectMove Hard (3/4) (sort_descending example_scores) = Inr m_hxg6"
    using move_selector [OF h1' g2 g3 g4, of Hard] i2 by (simp add: Let_def srt len)
  show ?thesis using a b c i5 by (simp add: srt srt2)
qed

section \<open>The selector and the empty list\<close>

lemma map_candidates_succeeds:
  assumes "\<forall>m\<in>set ms. engine (current gameCopy) (request_of m) \<noteq> None"
  shows "\<exists>ss. fst (map_candidates engine difficulty moveHistory rnd k ms gameCopy) = Inr ss"
  using assms
proof (induction ms arbitrary: k)
  case Nil
  show ?case by simp
next
  case (Cons m ms)
  from Cons.prems obtain made g where acc: "engine (current gameCopy) (request_of m) = Some (made, g)"
    by auto
  obtain s where sc: "score_candidate engine difficulty moveHistory (rnd k) m gameCopy = (Inr s, gameCopy)"
    using score_candidate_accepted
      [where engine = engine and gameCopy = gameCopy and m = m, OF acc] by blast
  from Cons.IH [of "k + 1"] Cons.prems
  obtain ss where "fst (map_candidates engine difficulty moveHistory rnd (k + 1) ms gameCopy) = Inr ss"
    by auto
  then show ?case using sc by (auto split: prod.splits)
qed

text \<open>
  Claim C4, as amended. \<^verbatim>\<open>selectMove\<close> never returns "no move": given the empty list it
  throws a \<^verbatim>\<open>TypeError\<close>, and given a non-empty list it returns the move of one of its
  elements. The caller decides: \<^verbatim>\<open>makeComputerMoveWithTimer\<close> calls the selector only
  when the engine lists a legal move, and sets no timer and makes no move exactly when the
  list of legal moves is empty. \<open>random\<close> is any double \<^verbatim>\<open>Math.random()\<close> can return.
\<close>

theorem no_move_is_decided_by_the_caller:
  assumes "0 \<le> random" and "random < 1" and "fl random = random"
    and "\<forall>m\<in>set (legal_moves game). engine game (request_of m) \<noteq> None"
  shows "selectMove difficulty random [] = Inl TypeError \<and>
     (\<forall>evaluatedMoves. evaluatedMoves \<noteq> [] \<longrightarrow>
        (\<exists>s\<in>set evaluatedMoves. selectMove difficulty random evaluatedMoves = Inr (sm_move s))) \<and>
     (legal_moves game = [] \<longrightarrow>
        makeComputerMoveWithTimer engine difficulty moveHistory rnd random game = Inr None) \<and>
     (legal_moves game \<noteq> [] \<longrightarrow>
        (\<exists>m\<in>set (legal_moves game).
           makeComputerMoveWithTimer engine difficulty moveHistory rnd random game =
             Inr (Some \<lparr>req_from = move_from m, req_to = move_to m, req_promotion = Some Queen\<rparr>)))"
proof -
  have a: "selectMove difficulty random [] = Inl TypeError"
    by (simp add: selectMove_def fl_zero)
  have b: "\<exists>s\<in>set evaluatedMoves. selectMove difficulty random evaluatedMoves = Inr (sm_move s)"
    if ne: "evaluatedMoves \<noteq> []" for evaluatedMoves
  proof -
    let ?i = "nat \<lfloor>fl (random * real (min (shortlist difficulty) (length evaluatedMoves)))\<rfloor>"
    have "?i < min (shortlist difficulty) (length evaluatedMoves) \<and>
          selectMove difficulty random evaluatedMoves = Inr (sm_move (evaluatedMoves ! ?i))"
      using selectMove_index [OF ne assms(1) assms(2) assms(3)] .
    moreover from this have "evaluatedMoves ! ?i \<in> set evaluatedMoves" by simp
    ultimately show ?thesis by blast
  qed
  have c: "makeComputerMoveWithTimer engine difficulty moveHistory rnd random game = Inr None"
    if "legal_moves game = []"
    using that by (simp add: makeComputerMoveWithTimer_def)
  have d: "\<exists>m\<in>set (legal_moves game).
           makeComputerMoveWithTimer engine difficulty moveHistory rnd random game =
             Inr (Some \<lparr>req_from = move_from m, req_to = move_to m, req_promotion = Some Queen\<rparr>)"
    if ne: "legal_moves game \<noteq> []"
  proof -
    have "\<forall>m\<in>set (legal_moves game). engine (current (new_Chess game)) (request_of m) \<noteq> None"
      using assms(4) by (simp add: new_Chess_def)
    then obtain scores where mc:
      "fst (map_candidates engine difficulty moveHistory rnd 0 (legal_moves game) (new_Chess game)) = Inr scores"
      using map_candidates_succeeds by blast
    have mv: "map sm_move scores = legal_moves game"
      using map_candidates_moves [OF mc] .
    have ev: "fst (evaluateAllMoves engine difficulty moveHistory rnd (legal_moves game) (new_Chess game))
                = Inr (sort_descending scores)"
      using mc by (simp add: evaluateAllMoves_map_candidates)
    have "length (sort_descending scores) = length (legal_moves game)"
      using arg_cong [OF mv, of length] by (simp add: sort_descending_def)
    then have "sort_descending scores \<noteq> []"
      using ne by auto
    from b [OF this] obtain s where s: "s \<in> set (sort_descending scores)"
      and sel: "selectMove difficulty random (sort_descending scores) = Inr (sm_move s)"
      by blast
    have "s \<in> set scores" using s by (simp add: sort_descending_def)
    then have "sm_move s \<in> set (map sm_move scores)" by simp
    then have "sm_move s \<in> set (legal_moves game)" unfolding mv .
    moreover have "makeComputerMoveWithTimer engine difficulty moveHistory rnd random game =
             Inr (Some \<lparr>req_from = move_from (sm_move s), req_to = move_to (sm_move s),
                        req_promotion = Some Queen\<rparr>)"
      using ne ev sel by (simp add: makeComputerMoveWithTimer_def Let_def)
    ultimately show ?thesis by blast
  qed
  show ?thesis using a b c d by blast
qed

theorem no_move_is_decided_by_the_caller_witness:
  "selectMove Easy (1/2) [] = Inl TypeError \<and>
   legal_moves pawn_ending \<noteq> [] \<and>
   (\<exists>m\<in>set (legal_moves pawn_ending).
      makeComputerMoveWithTimer pawn_ending_engine Easy [] (\<lambda>k. 0) (1/2) pawn_ending =
        Inr (Some \<lparr>req_from = move_from m, req_to = move_to m, req_promotion = Some Queen\<rparr>))"
proof -
  have h1: "(0::real) \<le> 1/2" by simp
  have h2: "(1/2::real) < 1" by simp
  have h3: "fl (1/2) = 1/2"
    by (subst fl_binade [where e = "- 1"]) (simp_all add: pow2_def round_even_def)
  have lm: "legal_moves pawn_ending = [m_Kg8, m_gxh6, m_hxg6]"
    by (simp add: pawn_ending_def mk_game_def)
  have h4: "\<forall>m\<in>set (legal_moves pawn_ending). pawn_ending_engine pawn_ending (request_of m) \<noteq> None"
    unfolding lm
    by (simp add: pawn_ending_engine_def request_of_def m_Kg8_def m_gxh6_def m_hxg6_def mk_move_def)
  show ?thesis
    using no_move_is_decided_by_the_caller
      [where engine = pawn_ending_engine and game = pawn_ending and random = "1/2"
         and difficulty = Easy and moveHistory = "[]" and rnd = "\<lambda>k. 0", OF h1 h2 h3 h4] lm
    by simp
qed

text \<open>The claim as stated fails: on the empty list the selector throws.\<close>

theorem selectMove_empty_counterexample:
  "selectMove Easy 0 [] = Inl TypeError"
  by (simp add: selectMove_def fl_zero)

section \<open>\<^verbatim>\<open>makeAMove\<close> is all or nothing\<close>

text \<open>
  Claim C10. When the engine rejects the request, \<^verbatim>\<open>makeAMove\<close> returns false and the
  state of the component (the game shown, the move history, the selection, the clock) is
  the one before the call. When the engine accepts it, \<^verbatim>\<open>makeAMove\<close> returns true, the
  game shown is the position the engine reached, the move's notation is appended to the
  history and the selection is cleared. So it returns true exactly when the move was made.
\<close>

theorem makeAMove_atomic:
  "(engine (current (st_game st)) req = None \<longrightarrow> makeAMove engine st req = (st, False)) \<and>
   (\<forall>result g. engine (current (st_game st)) req = Some (result, g) \<longrightarrow>
      snd (makeAMove engine st req) \<and>
      st_game (fst (makeAMove engine st req)) = \<lparr>current = g, history = [current (st_game st)]\<rparr> \<and>
      st_moveHistory (fst (makeAMove engine st req)) = st_moveHistory st @ [move_san result] \<and>
      st_moveFrom (fst (makeAMove engine st req)) = [] \<and>
      st_possibleMoves (fst (makeAMove engine st req)) = [])"
  by (auto simp: makeAMove_def chess_move_def new_Chess_def handleMoveComplete_def Let_def)

theorem makeAMove_atomic_witness:
  "makeAMove pawn_ending_engine example_state
     \<lparr>req_from = ''h8'', req_to = ''h7'', req_promotion = Some Queen\<rparr> = (example_state, False) \<and>
   snd (makeAMove pawn_ending_engine example_state
     \<lparr>req_from = ''h7'', req_to = ''g6'', req_promotion = Some Queen\<rparr>) \<and>
   st_moveHistory (fst (makeAMove pawn_ending_engine example_state
     \<lparr>req_from = ''h7'', req_to = ''g6'', req_promotion = Some Queen\<rparr>)) = [''hxg6'']"
proof -
  have cur: "current (st_game example_state) = pawn_ending"
    by (simp add: example_state_def new_Chess_def)
  have rej: "pawn_ending_engine (current (st_game example_state))
     \<lparr>req_from = ''h8'', req_to = ''h7'', req_promotion = Some Queen\<rparr> = None"
    by (simp add: cur pawn_ending_engine_def)
  have acc: "pawn_ending_engine (current (st_game example_state))
     \<lparr>req_from = ''h7'', req_to = ''g6'', req_promotion = Some Queen\<rparr> = Some (m_hxg6, after_hxg6)"
    by (simp add: cur pawn_ending_engine_def)
  have san: "move_san m_hxg6 = ''hxg6''" by (simp add: m_hxg6_def mk_move_def)
  have hist: "st_moveHistory example_state = []" by (simp add: example_state_def)
  show ?thesis
    using makeAMove_atomic [of pawn_ending_engine example_state
            "\<lparr>req_from = ''h8'', req_to = ''h7'', req_promotion = Some Queen\<rparr>"]
          makeAMove_atomic [of pawn_ending_engine example_state
            "\<lparr>req_from = ''h7'', req_to = ''g6'', req_promotion = Some Queen\<rparr>"]
          rej acc san hist
    by simp
qed

section \<open>What a FEN string can contain\<close>

lemma digit_char_digit: "digit_char n \<in> set ''0123456789''"
proof -
  have "n mod 10 < length ''0123456789''" by simp
  then have "''0123456789'' ! (n mod 10) \<in> set ''0123456789''" by (rule nth_mem)
  then show ?thesis by (simp only: digit_char_def)
qed

lemma decimal_digits: "set (decimal n) \<subseteq> set ''0123456789''"
proof (induction n rule: decimal.induct)
  case (1 n)
  show ?case
  proof (cases "n < 10")
    case True
    then show ?thesis using digit_char_digit [of n] by (subst decimal.simps) simp
  next
    case False
    then show ?thesis using 1 digit_char_digit [of n] by (subst decimal.simps) simp
  qed
qed

lemma decimal_placement: "set (decimal n) \<subseteq> placement_alphabet"
proof -
  have "set ''0123456789'' \<subseteq> placement_alphabet" by (simp add: placement_alphabet_def)
  with decimal_digits [of n] show ?thesis by (rule subset_trans)
qed

lemma piece_char_placement: "piece_char p \<in> placement_alphabet"
proof (cases p)
  case (Piece t c)
  then show ?thesis
    by (cases t; cases c) (simp_all add: piece_char_def placement_alphabet_def)
qed

lemma fen_row_placement: "set (fen_row emp cs) \<subseteq> placement_alphabet"
proof (induction emp cs rule: fen_row.induct)
  case (1 emp)
  then show ?case using decimal_placement [of emp] by auto
next
  case (2 emp cs)
  then show ?case by simp
next
  case (3 emp p cs)
  then show ?case using decimal_placement [of emp] piece_char_placement [of p] by auto
qed

lemma join_rows_placement:
  "\<forall>r\<in>set rs. set r \<subseteq> placement_alphabet \<Longrightarrow> set (join_rows rs) \<subseteq> placement_alphabet"
proof (induction rs rule: join_rows.induct)
  case 1
  show ?case by simp
next
  case (2 r)
  then show ?case by simp
next
  case (3 r v va)
  have "CHR ''/'' \<in> placement_alphabet" by (simp add: placement_alphabet_def)
  with 3 show ?case by simp
qed

lemma placement_chars: "set (placement b) \<subseteq> placement_alphabet"
  unfolding placement_def by (rule join_rows_placement) (simp add: fen_row_placement)

lemma placement_sub_fen: "placement_alphabet \<subseteq> fen_alphabet"
  by (simp add: placement_alphabet_def fen_alphabet_def)

lemma castling_field_chars: "set (castling_field g) \<subseteq> fen_alphabet"
  by (simp add: castling_field_def fen_alphabet_def Let_def)

lemma algebraic_chars: "set (algebraic sq) \<subseteq> fen_alphabet"
proof -
  have "set (take 1 (drop (fst sq) ''abcdefgh'')) \<subseteq> set ''abcdefgh''"
    by (meson set_take_subset set_drop_subset subset_trans)
  moreover have "set (take 1 (drop (snd sq) ''87654321'')) \<subseteq> set ''87654321''"
    by (meson set_take_subset set_drop_subset subset_trans)
  moreover have "set ''abcdefgh'' \<subseteq> fen_alphabet" by (simp add: fen_alphabet_def)
  moreover have "set ''87654321'' \<subseteq> fen_alphabet" by (simp add: fen_alphabet_def)
  ultimately show ?thesis unfolding algebraic_def by (simp only: set_append) blast
qed

lemma ep_field_chars: "set (ep_field g) \<subseteq> fen_alphabet"
proof (cases "ep_square g")
  case None
  then show ?thesis by (simp add: ep_field_def fen_alphabet_def)
next
  case (Some sq)
  then show ?thesis using algebraic_chars [of sq] by (simp add: ep_field_def)
qed

lemma fen_chars: "set (fen g) \<subseteq> fen_alphabet"
proof -
  have d: "set (decimal n) \<subseteq> fen_alphabet" for n
    using decimal_placement [of n] placement_sub_fen by blast
  have p: "set (placement (board g)) \<subseteq> fen_alphabet"
    using placement_chars [of "board g"] placement_sub_fen by blast
  have t: "set (if turn g = White then ''w'' else ''b'') \<subseteq> fen_alphabet"
    by (simp add: fen_alphabet_def)
  have s: "set '' '' \<subseteq> fen_alphabet" by (simp add: fen_alphabet_def)
  show ?thesis
    unfolding fen_def
    using p t s castling_field_chars [of g] ep_field_chars [of g] d [of "half_moves g"]
      d [of "move_number g"]
    by (simp only: set_append Un_subset_iff)
qed

lemma str_includes_chars: "str_includes s t \<Longrightarrow> set t \<subseteq> set s"
proof (induction s)
  case Nil
  then show ?case by simp
next
  case (Cons c s)
  from Cons.prems have "prefix t (c # s) \<or> str_includes s t" by simp
  then show ?case
  proof
    assume "prefix t (c # s)"
    then show ?thesis by (rule set_mono_prefix)
  next
    assume "str_includes s t"
    then have "set t \<subseteq> set s" by (rule Cons.IH)
    then show ?thesis by auto
  qed
qed

lemma fen_never_includes:
  assumes "c \<in> set t" and "c \<notin> fen_alphabet"
  shows "\<not> str_includes (fen g) t"
  using assms str_includes_chars [of "fen g" t] fen_chars [of g] by blast

lemma placement_never_includes:
  assumes "c \<in> set t" and "c \<notin> placement_alphabet"
  shows "\<not> str_includes (placement b) t"
  using assms str_includes_chars [of "placement b" t] placement_chars [of b] by blast

lemma first_field_fen: "first_field (fen g) = placement (board g)"
proof -
  have "CHR '' '' \<notin> placement_alphabet" by (simp add: placement_alphabet_def)
  then have a: "\<forall>c\<in>set (placement (board g)). c \<noteq> CHR '' ''"
    using placement_chars [of "board g"] by blast
  have "takeWhile (\<lambda>c. c \<noteq> CHR '' '') (placement (board g) @ CHR '' '' # rest)
          = placement (board g)" for rest
    using a by (simp add: takeWhile_append2)
  then show ?thesis by (simp add: first_field_def fen_def)
qed

section \<open>King safety\<close>

lemma castling_reward_never:
  "\<not> str_includes (fen g) ''k.*?r''" "\<not> str_includes (fen g) ''r.*?k''"
proof -
  have dot: "CHR ''.'' \<notin> fen_alphabet" by (simp add: fen_alphabet_def)
  show "\<not> str_includes (fen g) ''k.*?r''"
    by (rule fen_never_includes [OF _ dot]) simp
  show "\<not> str_includes (fen g) ''r.*?k''"
    by (rule fen_never_includes [OF _ dot]) simp
qed

text \<open>
  Claim C6. The component's king-safety term is nothing in the endgame phase and otherwise
  minus ten times the number of legal moves that end within one square of the black king.
  The reward for castling is never added: its test asks whether the FEN string contains the
  text \<^verbatim>\<open>k.*?r\<close> or \<^verbatim>\<open>r.*?k\<close>, and no FEN string contains a dot.
\<close>

theorem evaluateKingSafety_value:
  "evaluateKingSafety gameCopy isEndgame =
     (if isEndgame then 0 else - (real (countAttacksNearKing gameCopy) * 10))"
  by (simp add: evaluateKingSafety_def Let_def castling_reward_never)

section \<open>Pawn structure\<close>

lemma match_here_absent: "file \<notin> set s \<Longrightarrow> match_here file s = None"
  by (cases "(file, s)" rule: match_here.cases) auto

lemma regex_count_absent: "f \<notin> set s \<Longrightarrow> regex_count f s = 0"
proof (induction f s rule: regex_count.induct)
  case (1 f)
  show ?case by simp
next
  case (2 f c s)
  have "match_here f (c # s) = None" using "2.prems" by (rule match_here_absent)
  moreover have "f \<notin> set s" using "2.prems" by simp
  ultimately show ?case using "2.IH" by simp
qed

lemma pawn_file_step_value:
  "pawn_file_step (placement b) score file =
     (if 1 < regex_count file (placement b) then score - 20 else score)"
proof -
  have br: "CHR ''['' \<notin> placement_alphabet" by (simp add: placement_alphabet_def)
  have "\<not> str_includes (placement b) (file # ''[1-8].*?p'')"
    by (rule placement_never_includes [OF _ br]) simp
  then show ?thesis by (simp add: pawn_file_step_def Let_def)
qed

lemma regex_count_other_files:
  assumes "file \<in> set ''acdefgh''"
  shows "regex_count file (placement b) = 0"
proof -
  have "file \<notin> placement_alphabet" using assms by (auto simp: placement_alphabet_def)
  then have "file \<notin> set (placement b)" using placement_chars [of b] by blast
  then show ?thesis by (rule regex_count_absent)
qed

text \<open>
  The coarse term looks for the letter of a file in the piece placement of the FEN string,
  where the only file letter that occurs is the \<^verbatim>\<open>b\<close> of a black bishop: it is -20 when
  the placement holds two matches of \<^verbatim>\<open>b[1-8].*?p\<close> and 0 otherwise, whatever the pawns.
\<close>

theorem evaluatePawnStructure_value:
  "evaluatePawnStructure gameCopy =
     (if 1 < regex_count CHR ''b'' (placement (board gameCopy)) then - 20 else 0)"
  by (simp add: evaluatePawnStructure_def Let_def first_field_fen pawn_file_step_value
      regex_count_other_files)

text \<open>
  Claim C7. With black pawns doubled on the g-file and no black pawn beside them (the
  position after hxg6), the coarse term is 0: neither penalty is applied. The fuller term
  is -55 there: the doubled and the isolated file are penalised, and the bonus for a
  passed pawn is withheld although no white pawn stands on the g-file, because the scan
  runs over the rows behind the black pawn and stops at its own pawn on g7. In the
  starting position of the example the fuller term is 100: the pawns on g7 and h7 are both
  rewarded as passed with a white pawn directly in front of each.
\<close>

theorem pawn_structure_terms_at_pawn_ending:
  "evaluatePawnStructure after_hxg6 = 0 \<and>
   evaluateAdvancedPawnStructure after_hxg6 = - 55 \<and>
   evaluateAdvancedPawnStructure pawn_ending = 100"
  by code_simp

section \<open>The game phase\<close>

lemma match_count_append: "match_count P (xs @ ys) = match_count P xs + match_count P ys"
  by (simp add: match_count_def)

lemma match_count_none: "(\<forall>c\<in>set s. \<not> P c) \<Longrightarrow> match_count P s = 0"
  by (simp add: match_count_def)

lemma match_count_decimal:
  assumes "\<forall>c\<in>set ''0123456789''. \<not> P c"
  shows "match_count P (decimal n) = 0"
proof (rule match_count_none)
  show "\<forall>c\<in>set (decimal n). \<not> P c" using assms decimal_digits [of n] by blast
qed

lemma match_count_fen_row:
  assumes "\<forall>c\<in>set ''0123456789''. \<not> P c"
  shows "match_count P (fen_row emp cs) = on_squares P cs"
proof (induction emp cs rule: fen_row.induct)
  case (1 emp)
  show ?case using match_count_decimal [OF assms, of emp]
    by (simp add: on_squares_def) (simp add: match_count_def)
next
  case (2 emp cs)
  then show ?case by (simp add: on_squares_def)
next
  case (3 emp p cs)
  have "match_count P (fen_row emp (Some p # cs)) =
          match_count P (if 0 < emp then decimal emp else []) + match_count P (piece_char p # fen_row 0 cs)"
    by (simp only: fen_row.simps match_count_append)
  also have "match_count P (if 0 < emp then decimal emp else []) = 0"
    using match_count_decimal [OF assms, of emp] by (simp add: match_count_def)
  also have "match_count P (piece_char p # fen_row 0 cs) =
          (if P (piece_char p) then 1 else 0) + match_count P (fen_row 0 cs)"
    by (simp add: match_count_def)
  finally show ?case using 3 by (simp add: on_squares_def)
qed

lemma match_count_join_rows:
  assumes "\<not> P (CHR ''/'')"
  shows "match_count P (join_rows rs) = sum_list (map (match_count P) rs)"
proof (induction rs rule: join_rows.induct)
  case 1
  show ?case by (simp add: match_count_def)
next
  case (2 r)
  show ?case by simp
next
  case (3 r v va)
  then show ?case using assms by (simp add: match_count_def)
qed

lemma on_squares_concat: "sum_list (map (on_squares P) b) = on_squares P (concat b)"
  by (induction b) (simp_all add: on_squares_def)

lemma match_count_placement:
  assumes "\<forall>c\<in>set ''0123456789''. \<not> P c" and "\<not> P (CHR ''/'')"
  shows "match_count P (placement b) = on_squares P (concat b)"
proof -
  have "map (match_count P) (map (fen_row 0) b) = map (on_squares P) b"
    using match_count_fen_row [where P = P, OF assms(1)] by simp
  then show ?thesis
    unfolding placement_def
    using match_count_join_rows [where P = P and rs = "map (fen_row 0) b", OF assms(2)]
    by (simp only: on_squares_concat)
qed

lemma queen_letter: "(piece_char p = CHR ''q'' \<or> piece_char p = CHR ''Q'') = (ptype p = Queen)"
proof (cases p)
  case (Piece t c)
  then show ?thesis by (cases t; cases c) (simp_all add: piece_char_def)
qed

lemma rnb_letter: "(piece_char p \<in> set ''rnbRNB'') = (ptype p \<in> set [Rook, Knight, Bishop])"
proof (cases p)
  case (Piece t c)
  then show ?thesis by (cases t; cases c) (simp_all add: piece_char_def)
qed

lemma on_squares_queens:
  "on_squares (\<lambda>c. c = CHR ''q'' \<or> c = CHR ''Q'') (concat b) = count_on_board [Queen] b"
proof -
  have "(case c of None \<Rightarrow> False | Some p \<Rightarrow> piece_char p = CHR ''q'' \<or> piece_char p = CHR ''Q'')
      = (case c of None \<Rightarrow> False | Some p \<Rightarrow> ptype p \<in> set [Queen])" for c
    by (cases c) (simp_all add: queen_letter)
  then show ?thesis by (simp only: on_squares_def count_on_board_def)
qed

lemma on_squares_rnb:
  "on_squares (\<lambda>c. c \<in> set ''rnbRNB'') (concat b) = count_on_board [Rook, Knight, Bishop] b"
proof -
  have "(case c of None \<Rightarrow> False | Some p \<Rightarrow> piece_char p \<in> set ''rnbRNB'')
      = (case c of None \<Rightarrow> False | Some p \<Rightarrow> ptype p \<in> set [Rook, Knight, Bishop])" for c
    by (cases c) (simp_all only: option.case rnb_letter)
  then show ?thesis by (simp only: on_squares_def count_on_board_def)
qed

lemma algebraic_cases:
  "algebraic sq = (if fst sq < 8 then [''abcdefgh'' ! fst sq] else []) @
                  (if snd sq < 8 then [''87654321'' ! snd sq] else [])"
proof -
  have a: "take 1 (drop k xs) = (if k < length xs then [xs ! k] else [])" for k and xs :: string
    by (simp add: take_Suc_conv_app_nth drop_all flip: One_nat_def)
       (metis Cons_nth_drop_Suc take0 take_Suc_Cons One_nat_def)
  show ?thesis unfolding algebraic_def a by simp
qed

lemma file_letter_b: "f < 8 \<Longrightarrow> (''abcdefgh'' ! f \<in> set ''rnbRNB'') = (f = 1)"
proof -
  have "\<forall>f<8. (''abcdefgh'' ! f \<in> set ''rnbRNB'') = (f = (1::nat))"
    by (simp add: eval_nat_numeral All_less_Suc)
  then show "f < 8 \<Longrightarrow> (''abcdefgh'' ! f \<in> set ''rnbRNB'') = (f = 1)" by blast
qed

lemma file_letter_not_q: "f < 8 \<Longrightarrow> ''abcdefgh'' ! f \<noteq> CHR ''q'' \<and> ''abcdefgh'' ! f \<noteq> CHR ''Q''"
proof -
  have "\<forall>f<8. ''abcdefgh'' ! f \<noteq> CHR ''q'' \<and> ''abcdefgh'' ! f \<noteq> CHR ''Q''"
    by (simp add: eval_nat_numeral All_less_Suc)
  then show "f < 8 \<Longrightarrow> ''abcdefgh'' ! f \<noteq> CHR ''q'' \<and> ''abcdefgh'' ! f \<noteq> CHR ''Q''" by blast
qed

lemma rank_digit_no_letter:
  "r < 8 \<Longrightarrow> ''87654321'' ! r \<notin> set ''rnbRNB'' \<and> ''87654321'' ! r \<noteq> CHR ''q'' \<and> ''87654321'' ! r \<noteq> CHR ''Q''"
proof -
  have "\<forall>r<8. ''87654321'' ! r \<notin> set ''rnbRNB'' \<and> ''87654321'' ! r \<noteq> CHR ''q'' \<and> ''87654321'' ! r \<noteq> CHR ''Q''"
    by (simp add: eval_nat_numeral All_less_Suc)
  then show "r < 8 \<Longrightarrow> ''87654321'' ! r \<notin> set ''rnbRNB'' \<and> ''87654321'' ! r \<noteq> CHR ''q'' \<and> ''87654321'' ! r \<noteq> CHR ''Q''" by blast
qed

lemma ep_field_queens: "match_count (\<lambda>c. c = CHR ''q'' \<or> c = CHR ''Q'') (ep_field g) = 0"
proof (cases "ep_square g")
  case None
  then show ?thesis by (simp add: ep_field_def match_count_def)
next
  case (Some sq)
  then show ?thesis
    using file_letter_not_q [of "fst sq"] rank_digit_no_letter [of "snd sq"]
    by (simp add: ep_field_def algebraic_cases match_count_def)
qed

lemma ep_field_rnb:
  "match_count (\<lambda>c. c \<in> set ''rnbRNB'') (ep_field g) = (if ep_on_b_file g then 1 else 0)"
proof (cases "ep_square g")
  case None
  then show ?thesis by (simp add: ep_field_def match_count_def ep_on_b_file_def)
next
  case (Some sq)
  have r: "snd sq < 8 \<Longrightarrow> ''87654321'' ! snd sq \<notin> set ''rnbRNB''"
    using rank_digit_no_letter [of "snd sq"] by blast
  have f: "fst sq < 8 \<Longrightarrow> (''abcdefgh'' ! fst sq \<in> set ''rnbRNB'') = (fst sq = 1)"
    by (rule file_letter_b)
  show ?thesis
  proof (cases "fst sq < 8")
    case True
    then show ?thesis using Some r f
      by (cases "snd sq < 8") (simp_all only: ep_field_def algebraic_cases match_count_def ep_on_b_file_def
            option.case if_True if_False filter.simps append.simps list.size split: if_splits, auto)
  next
    case False
    then have "fst sq \<noteq> 1" by simp
    then show ?thesis using Some r False
      by (cases "snd sq < 8") (simp_all add: ep_field_def algebraic_cases match_count_def ep_on_b_file_def)
  qed
qed

lemma castling_field_queens:
  "match_count (\<lambda>c. c = CHR ''q'' \<or> c = CHR ''Q'') (castling_field g) =
     (if castle_Q g then 1 else 0) + (if castle_q g then 1 else 0)"
  by (simp add: castling_field_def match_count_def Let_def)

lemma castling_field_rnb: "match_count (\<lambda>c. c \<in> set ''rnbRNB'') (castling_field g) = 0"
  by (simp add: castling_field_def match_count_def Let_def)

lemma fen_queens:
  "match_count (\<lambda>c. c = CHR ''q'' \<or> c = CHR ''Q'') (fen g) =
     count_on_board [Queen] (board g) + (if castle_Q g then 1 else 0) + (if castle_q g then 1 else 0)"
proof -
  let ?P = "\<lambda>c. c = CHR ''q'' \<or> c = CHR ''Q''"
  have d: "\<forall>c\<in>set ''0123456789''. \<not> ?P c" by simp
  have p: "match_count ?P (placement (board g)) = count_on_board [Queen] (board g)"
    using match_count_placement [where P = ?P and b = "board g", OF d] on_squares_queens [of "board g"]
    by simp
  have t: "match_count ?P (if turn g = White then ''w'' else ''b'') = 0"
    by (simp add: match_count_def)
  have s: "match_count ?P '' '' = 0" by (simp add: match_count_def)
  show ?thesis
    unfolding fen_def match_count_append p t s castling_field_queens ep_field_queens
      match_count_decimal [where P = ?P, OF d]
    by simp
qed

lemma fen_rnb:
  "match_count (\<lambda>c. c \<in> set ''rnbRNB'') (fen g) =
     count_on_board [Rook, Knight, Bishop] (board g) + (if turn g = Black then 1 else 0)
       + (if ep_on_b_file g then 1 else 0)"
proof -
  let ?P = "\<lambda>c. c \<in> set ''rnbRNB''"
  have d: "\<forall>c\<in>set ''0123456789''. \<not> ?P c" by simp
  have p: "match_count ?P (placement (board g)) = count_on_board [Rook, Knight, Bishop] (board g)"
    using match_count_placement [where P = ?P and b = "board g", OF d] on_squares_rnb [of "board g"]
    by simp
  have t: "match_count ?P (if turn g = White then ''w'' else ''b'') = (if turn g = Black then 1 else 0)"
    by (cases "turn g") (simp_all add: match_count_def)
  have s: "match_count ?P '' '' = 0" by (simp add: match_count_def)
  show ?thesis
    unfolding fen_def match_count_append p t s castling_field_rnb ep_field_rnb
      match_count_decimal [where P = ?P, OF d]
    by simp
qed

text \<open>
  What \<^verbatim>\<open>isInEndgame\<close> computes, in terms of the position: it counts the letters of the
  whole FEN string, so each right to castle on the queen's side counts as a queen, and
  Black to move and an en-passant square on the b-file each count as a piece.
\<close>

theorem isInEndgame_value:
  "isInEndgame gameCopy =
     (count_on_board [Queen] (board gameCopy)
        + (if castle_Q gameCopy then 1 else 0) + (if castle_q gameCopy then 1 else 0) = 0 \<or>
      count_on_board [Rook, Knight, Bishop] (board gameCopy)
        + (if turn gameCopy = Black then 1 else 0) + (if ep_on_b_file gameCopy then 1 else 0) \<le> 6)"
  unfolding isInEndgame_def Let_def fen_queens fen_rnb ..

text \<open>
  Claim C5. In the position after an early exchange of queens no queen is on the board, so
  the position is an endgame in the specification's words, and the component classifies it
  as not an endgame: the castling rights \<^verbatim>\<open>KQkq\<close> of its FEN string count as two queens.
\<close>

theorem isInEndgame_counts_castling_letters:
  "fen queenless_opening = ''rnb1kb1r/ppp1pppp/5n2/8/8/5N2/PPPP1PPP/RNB1KB1R w KQkq - 1 5'' \<and>
   count_on_board [Queen] (board queenless_opening) = 0 \<and>
   endgame_spec (board queenless_opening) \<and>
   \<not> isInEndgame queenless_opening"
  by code_simp

section \<open>The scores at the Hard and Medium tiers\<close>

lemma after_hxg6_squares: "sum_list (map (square_term False (board after_hxg6)) squares) = - 5"
  by code_simp

text \<open>
  At the Hard tier the score of a candidate the engine accepts is the basic score, plus
  the sum of the piece-square values with the middlegame table for both kings, plus 5 times
  \<^verbatim>\<open>Math.random()\<close>, each sum and the product rounded to a double, and nothing else.
\<close>

theorem advanced_score:
  assumes "engine (current gameCopy) (request_of m) = Some (made, g)"
  shows "score_candidate engine Hard moveHistory random m gameCopy =
     (Inr \<lparr>sm_move = m, sm_score =
        fl (fl (evaluateBasicPosition m g + sum_list (map (square_term False (board g)) squares))
            + fl (random * 5))\<rparr>,
      gameCopy)"
  using score_candidate_accepted
    [where engine = engine and gameCopy = gameCopy and m = m and difficulty = Hard, OF assms]
  by (simp add: evaluateAdvancedPosition_def)

theorem advanced_score_witness:
  "score_candidate pawn_ending_engine Hard [] (1/4) m_hxg6 (new_Chess pawn_ending) =
     (Inr \<lparr>sm_move = m_hxg6, sm_score = 785/4\<rparr>, new_Chess pawn_ending)"
proof -
  have a: "fl 195 = 195" using fl_int [of 195] by simp
  have b: "fl (5/4) = 5/4"
    by (subst fl_binade [where e = 0]) (simp_all add: pow2_def round_even_def)
  have c: "fl (785/4) = 785/4"
    by (subst fl_binade [where e = 7]) (simp_all add: pow2_def round_even_def)
  show ?thesis
    using advanced_score
      [where engine = pawn_ending_engine and gameCopy = "new_Chess pawn_ending" and m = m_hxg6
         and moveHistory = "[]" and random = "1/4", OF engine_hxg6]
    by (simp add: evaluateBasicPosition_sum after_hxg6_flags m_hxg6_fields after_hxg6_squares a b c)
qed

text \<open>
  Claim C1. At the Hard tier \<^verbatim>\<open>evaluateAllMoves\<close> calls \<^verbatim>\<open>evaluateAdvancedPosition\<close> with
  one argument, and the call reaches the second declaration of that name: the sum of the
  piece-square values with the middlegame table for the kings. For the capture hxg6 in the
  example the score is 195 (200 for the pawn, -5 for the squares, no jitter drawn); the
  composition of the first declaration, which the claim describes, gives 5.
\<close>

theorem hard_score_is_piece_square_only:
  "fst (score_candidate pawn_ending_engine Hard [] 0 m_hxg6 (new_Chess pawn_ending)) =
     Inr \<lparr>sm_move = m_hxg6, sm_score = 195\<rparr> \<and>
   evaluateBasicPosition m_hxg6 after_hxg6 + evaluateAdvancedPosition_shadowed [] after_hxg6 + 0 * 5 = 5"
  by code_simp

lemma after_hxg6_intermediate:
  "evaluatePosition after_hxg6 = - 5" "isInEndgame after_hxg6"
  "regex_count CHR ''b'' (placement (board after_hxg6)) = 0"
  "length (legal_moves after_hxg6) = 5" "evaluateOpeningPrinciples after_hxg6 1 = 0"
  by code_simp+

text \<open>
  At the Medium tier the score of a candidate the engine accepts is the basic score, the
  piece-square sum, the king-safety term without its reward, the pawn-structure term that
  looks at bishops, twice the number of replies, the opening term while fewer than ten
  moves are in the history, and 20 times \<^verbatim>\<open>Math.random()\<close>, the two sums of the scoring
  pass and the product rounded to a double.
\<close>

theorem intermediate_score:
  assumes "engine (current gameCopy) (request_of m) = Some (made, g)"
  shows "score_candidate engine Medium moveHistory random m gameCopy =
     (Inr \<lparr>sm_move = m, sm_score =
        fl (fl (evaluateBasicPosition m g
                + (evaluatePosition g
                   + (if isInEndgame g then 0 else - (real (countAttacksNearKing g) * 10))
                   + (if 1 < regex_count CHR ''b'' (placement (board g)) then - 20 else 0)
                   + real (length (legal_moves g)) * 2
                   + (if length moveHistory < 10 then evaluateOpeningPrinciples g 1 else 0)))
            + fl (random * 20))\<rparr>,
      gameCopy)"
  using score_candidate_accepted
    [where engine = engine and gameCopy = gameCopy and m = m and difficulty = Medium, OF assms]
  by (simp add: evaluateIntermediatePosition_def Let_def evaluateKingSafety_def
      castling_reward_never evaluatePawnStructure_def first_field_fen pawn_file_step_value
      regex_count_other_files)

theorem intermediate_score_witness:
  "score_candidate pawn_ending_engine Medium [] (1/2) m_hxg6 (new_Chess pawn_ending) =
     (Inr \<lparr>sm_move = m_hxg6, sm_score = 215\<rparr>, new_Chess pawn_ending)"
proof -
  have a: "fl 205 = 205" using fl_int [of 205] by simp
  have b: "fl 10 = 10" using fl_int [of 10] by simp
  have c: "fl 215 = 215" using fl_int [of 215] by simp
  show ?thesis
    using intermediate_score
      [where engine = pawn_ending_engine and gameCopy = "new_Chess pawn_ending" and m = m_hxg6
         and moveHistory = "[]" and random = "1/2", OF engine_hxg6]
    by (simp add: evaluateBasicPosition_sum after_hxg6_flags m_hxg6_fields after_hxg6_intermediate
        a b c)
qed

section \<open>Checkmate against the other candidates\<close>

lemma engine_g2:
  "mating_net_engine (current (new_Chess mating_net)) (request_of m_g2) = Some (m_g2, after_g2)"
  by (simp add: mating_net_engine_def new_Chess_def request_of_def m_g2_def mk_move_def)

lemma engine_Kg4:
  "mating_net_engine (current (new_Chess mating_net)) (request_of m_Kg4) = Some (m_Kg4, after_Kg4)"
  by (simp add: mating_net_engine_def new_Chess_def request_of_def m_Kg4_def mk_move_def)

lemma mating_net_flags:
  "isCheckmate after_g2" "\<not> isCheckmate after_Kg4" "move_captured m_Kg4 \<noteq> Some King"
  by (simp_all add: after_g2_def after_Kg4_def mk_game_def m_Kg4_def mk_move_def)

lemma mating_net_changes:
  "changed_squares (board (current (new_Chess mating_net))) (board after_g2) \<le> 4"
  "changed_squares (board (current (new_Chess mating_net))) (board after_Kg4) \<le> 4"
  by code_simp+

text \<open>
  At the Easy tier a candidate that gives checkmate scores higher than any candidate of the
  same pass that does not, whatever the random draws: at least 5000 against at most 1900.
\<close>

theorem beginner_checkmate_outscores:
  assumes "engine (current gameCopy) (request_of m1) = Some (made1, g1)"
    and "engine (current gameCopy) (request_of m2) = Some (made2, g2)"
    and "isCheckmate g1" and "\<not> isCheckmate g2"
    and "move_captured m2 \<noteq> Some King"
    and "0 \<le> r1" and "r2 < 1"
  shows "\<exists>s1 s2.
     fst (score_candidate engine Easy moveHistory r1 m1 gameCopy) = Inr s1 \<and>
     fst (score_candidate engine Easy moveHistory r2 m2 gameCopy) = Inr s2 \<and>
     sm_score s2 < sm_score s1"
proof -
  have c1: "0 \<le> (case move_captured m1 of None \<Rightarrow> 0 | Some c \<Rightarrow> PIECE_VALUES c * 2)"
    by (cases "move_captured m1"; simp) (rename_tac c, case_tac c, simp_all)
  have c2: "(case move_captured m2 of None \<Rightarrow> 0 | Some c \<Rightarrow> PIECE_VALUES c * 2) \<le> 1800"
    using assms(5) by (cases "move_captured m2"; simp) (rename_tac c, case_tac c, simp_all)
  have b1: "5000 \<le> evaluateBasicPosition m1 g1"
    using c1 assms(3) by (simp add: evaluateBasicPosition_sum)
  have b2: "evaluateBasicPosition m2 g2 \<le> 1850"
    using c2 assms(4) by (simp add: evaluateBasicPosition_sum)
  have j1: "0 \<le> fl (r1 * 50)" using assms(6) by (intro fl_nonneg) simp
  have "fl (r2 * 50) \<le> fl 50" using assms(7) by (intro fl_mono) simp
  then have j2: "fl (r2 * 50) \<le> 50" using fl_int [of 50] by simp
  have s1: "fst (score_candidate engine Easy moveHistory r1 m1 gameCopy) =
              Inr \<lparr>sm_move = m1, sm_score = fl (evaluateBasicPosition m1 g1 + fl (r1 * 50))\<rparr>"
    using score_candidate_accepted
      [where engine = engine and gameCopy = gameCopy and m = m1 and difficulty = Easy, OF assms(1)]
    by simp
  have s2: "fst (score_candidate engine Easy moveHistory r2 m2 gameCopy) =
              Inr \<lparr>sm_move = m2, sm_score = fl (evaluateBasicPosition m2 g2 + fl (r2 * 50))\<rparr>"
    using score_candidate_accepted
      [where engine = engine and gameCopy = gameCopy and m = m2 and difficulty = Easy, OF assms(2)]
    by simp
  have lo: "of_int 5000 \<le> fl (evaluateBasicPosition m1 g1 + fl (r1 * 50))"
    using b1 j1 by (intro fl_ge_int) simp_all
  have hi: "fl (evaluateBasicPosition m2 g2 + fl (r2 * 50)) \<le> of_int 1900"
    using b2 j2 by (intro fl_le_int) simp_all
  have "fl (evaluateBasicPosition m2 g2 + fl (r2 * 50))
          < fl (evaluateBasicPosition m1 g1 + fl (r1 * 50))"
    using lo hi by simp
  then show ?thesis using s1 s2 by simp
qed

theorem beginner_checkmate_outscores_witness:
  "\<exists>s1 s2.
     fst (score_candidate mating_net_engine Easy [] 0 m_g2 (new_Chess mating_net)) = Inr s1 \<and>
     fst (score_candidate mating_net_engine Easy [] (3/4) m_Kg4 (new_Chess mating_net)) = Inr s2 \<and>
     sm_score s2 < sm_score s1"
proof -
  have r1: "(0::real) \<le> 0" by simp
  have r2: "(3/4::real) < 1" by simp
  show ?thesis
    using beginner_checkmate_outscores
      [where engine = mating_net_engine and gameCopy = "new_Chess mating_net" and ?m1.0 = m_g2
         and ?m2.0 = m_Kg4 and moveHistory = "[]",
       OF engine_g2 engine_Kg4 mating_net_flags r1 r2] .
qed

lemma table_bounds:
  "list_all (\<lambda>v. \<bar>v\<bar> \<le> 50) PAWN_POSITION_SCORES"
  "list_all (\<lambda>v. \<bar>v\<bar> \<le> 50) KNIGHT_POSITION_SCORES"
  "list_all (\<lambda>v. \<bar>v\<bar> \<le> 50) BISHOP_POSITION_SCORES"
  "list_all (\<lambda>v. \<bar>v\<bar> \<le> 50) ROOK_POSITION_SCORES"
  "list_all (\<lambda>v. \<bar>v\<bar> \<le> 50) QUEEN_POSITION_SCORES"
  "list_all (\<lambda>v. \<bar>v\<bar> \<le> 50) KING_MIDDLEGAME_SCORES"
  "list_all (\<lambda>v. \<bar>v\<bar> \<le> 50) KING_ENDGAME_SCORES"
  by (simp_all add: PAWN_POSITION_SCORES_def KNIGHT_POSITION_SCORES_def BISHOP_POSITION_SCORES_def
      ROOK_POSITION_SCORES_def QUEEN_POSITION_SCORES_def KING_MIDDLEGAME_SCORES_def
      KING_ENDGAME_SCORES_def)

lemma table_lengths:
  "length PAWN_POSITION_SCORES = 64" "length KNIGHT_POSITION_SCORES = 64"
  "length BISHOP_POSITION_SCORES = 64" "length ROOK_POSITION_SCORES = 64"
  "length QUEEN_POSITION_SCORES = 64" "length KING_MIDDLEGAME_SCORES = 64"
  "length KING_ENDGAME_SCORES = 64"
  by (simp_all add: PAWN_POSITION_SCORES_def KNIGHT_POSITION_SCORES_def BISHOP_POSITION_SCORES_def
      ROOK_POSITION_SCORES_def QUEEN_POSITION_SCORES_def KING_MIDDLEGAME_SCORES_def
      KING_ENDGAME_SCORES_def)

lemma table_score_bound:
  assumes "list_all (\<lambda>v. \<bar>v\<bar> \<le> 50) table" and "length table = 64" and "square < 64"
  shows "\<bar>table_score table isBlack square\<bar> \<le> 50"
proof -
  have a: "\<bar>table ! i\<bar> \<le> 50" if "i < 64" for i
    using assms(1) assms(2) that by (simp add: list_all_length)
  show ?thesis
    using a [of square] a [of "63 - square"] assms(3) by (simp add: table_score_def)
qed

lemma piece_square_bound: "square < 64 \<Longrightarrow> \<bar>piece_square endgame p square\<bar> \<le> 50"
proof (cases p)
  case (Piece t c)
  assume "square < 64"
  then show ?thesis
    using Piece by (cases t) (simp_all add: table_score_bound table_bounds table_lengths)
qed

lemma squares_in_range: "rc \<in> set squares \<Longrightarrow> fst rc * 8 + snd rc < 64"
  by (auto simp: squares_def)

lemma square_term_bound: "rc \<in> set squares \<Longrightarrow> \<bar>square_term endgame position rc\<bar> \<le> 50"
  using piece_square_bound [of "fst rc * 8 + snd rc"] squares_in_range [of rc]
  by (simp add: square_term_def split: option.splits)

lemma sum_list_changes:
  fixes f g :: "'a \<Rightarrow> real"
  assumes "\<forall>x\<in>set xs. \<bar>f x - g x\<bar> \<le> c"
  shows "\<bar>sum_list (map f xs) - sum_list (map g xs)\<bar> \<le> c * real (length (filter (\<lambda>x. f x \<noteq> g x) xs))"
  using assms
proof (induction xs)
  case Nil
  show ?case by simp
next
  case (Cons x xs)
  have ih: "\<bar>sum_list (map f xs) - sum_list (map g xs)\<bar>
              \<le> c * real (length (filter (\<lambda>x. f x \<noteq> g x) xs))"
    using Cons by simp
  show ?case
  proof (cases "f x = g x")
    case True
    then show ?thesis using ih by simp
  next
    case False
    have "\<bar>f x - g x\<bar> \<le> c" using Cons.prems by simp
    then show ?thesis using ih False by (simp add: algebra_simps)
  qed
qed

lemma length_filter_imp:
  "(\<And>x. P x \<Longrightarrow> Q x) \<Longrightarrow> length (filter P xs) \<le> length (filter Q xs)"
  by (induction xs) auto

lemma piece_square_sum_changes:
  "\<bar>evaluateAdvancedPosition g1 None - evaluateAdvancedPosition g2 None\<bar>
     \<le> 100 * real (changed_squares (board g1) (board g2))"
proof -
  let ?f = "square_term False (board g1)" and ?g = "square_term False (board g2)"
  have b: "\<forall>rc\<in>set squares. \<bar>?f rc - ?g rc\<bar> \<le> 100"
  proof
    fix rc assume rc: "rc \<in> set squares"
    show "\<bar>?f rc - ?g rc\<bar> \<le> 100"
      using square_term_bound [OF rc, of False "board g1"] square_term_bound [OF rc, of False "board g2"]
      by linarith
  qed
  have "length (filter (\<lambda>rc. ?f rc \<noteq> ?g rc) squares) \<le> changed_squares (board g1) (board g2)"
    unfolding changed_squares_def
    by (rule length_filter_imp) (auto simp: square_term_def)
  then have "100 * real (length (filter (\<lambda>rc. ?f rc \<noteq> ?g rc) squares))
               \<le> 100 * real (changed_squares (board g1) (board g2))"
    by simp
  then show ?thesis
    using sum_list_changes [OF b] by (simp add: evaluateAdvancedPosition_def Let_def)
qed

lemma evaluateAdvancedPosition_bound: "\<bar>evaluateAdvancedPosition g None\<bar> \<le> 3200"
proof -
  let ?f = "square_term False (board g)"
  have b: "\<forall>rc\<in>set squares. \<bar>?f rc - (\<lambda>rc. 0) rc\<bar> \<le> 50"
    using square_term_bound [of _ False "board g"] by simp
  have "length squares = 64" by code_simp
  then have l: "length (filter (\<lambda>rc. ?f rc \<noteq> (\<lambda>rc. 0) rc) squares) \<le> 64"
    using length_filter_le [of "\<lambda>rc. ?f rc \<noteq> (\<lambda>rc. 0) rc" squares] by simp
  have "\<bar>sum_list (map ?f squares) - sum_list (map (\<lambda>rc. 0) squares)\<bar>
          \<le> 50 * real (length (filter (\<lambda>rc. ?f rc \<noteq> (\<lambda>rc. 0) rc) squares))"
    by (rule sum_list_changes [OF b])
  also have "\<dots> \<le> 50 * 64" using l by simp
  finally show ?thesis by (simp add: evaluateAdvancedPosition_def Let_def)
qed

text \<open>
  The same at the Hard tier, for an engine whose moves change at most four squares of the
  board (a castling move changes four): the piece-square sums of two candidates then differ
  by at most 800.
\<close>

theorem advanced_checkmate_outscores:
  assumes "engine (current gameCopy) (request_of m1) = Some (made1, g1)"
    and "engine (current gameCopy) (request_of m2) = Some (made2, g2)"
    and "isCheckmate g1" and "\<not> isCheckmate g2"
    and "move_captured m2 \<noteq> Some King"
    and "changed_squares (board (current gameCopy)) (board g1) \<le> 4"
    and "changed_squares (board (current gameCopy)) (board g2) \<le> 4"
    and "0 \<le> r1" and "r2 < 1"
  shows "\<exists>s1 s2.
     fst (score_candidate engine Hard moveHistory r1 m1 gameCopy) = Inr s1 \<and>
     fst (score_candidate engine Hard moveHistory r2 m2 gameCopy) = Inr s2 \<and>
     sm_score s2 < sm_score s1"
proof -
  let ?p0 = "evaluateAdvancedPosition (current gameCopy) None"
  let ?p1 = "evaluateAdvancedPosition g1 None"
  let ?p2 = "evaluateAdvancedPosition g2 None"
  let ?b1 = "evaluateBasicPosition m1 g1"
  let ?b2 = "evaluateBasicPosition m2 g2"
  have c1: "0 \<le> (case move_captured m1 of None \<Rightarrow> 0 | Some c \<Rightarrow> PIECE_VALUES c * 2)"
    by (cases "move_captured m1"; simp) (rename_tac c, case_tac c, simp_all)
  have c2: "(case move_captured m2 of None \<Rightarrow> 0 | Some c \<Rightarrow> PIECE_VALUES c * 2) \<le> 1800"
    using assms(5) by (cases "move_captured m2"; simp) (rename_tac c, case_tac c, simp_all)
  have b1: "5000 \<le> ?b1"
    using c1 assms(3) by (simp add: evaluateBasicPosition_sum)
  have b2: "?b2 \<le> 1850"
    using c2 assms(4) by (simp add: evaluateBasicPosition_sum)
  have d1: "\<bar>?p0 - ?p1\<bar> \<le> 400"
    using piece_square_sum_changes [of "current gameCopy" g1] assms(6) by simp
  have d2: "\<bar>?p0 - ?p2\<bar> \<le> 400"
    using piece_square_sum_changes [of "current gameCopy" g2] assms(7) by simp
  have j1: "0 \<le> fl (r1 * 5)" using assms(8) by (intro fl_nonneg) simp
  have "fl (r2 * 5) \<le> fl 5" using assms(9) by (intro fl_mono) simp
  then have j2: "fl (r2 * 5) \<le> 5" using fl_int [of 5] by simp
  define F where "F = \<lfloor>?p0\<rfloor>"
  have F: "of_int F \<le> ?p0" "?p0 < of_int F + 1" by (simp_all add: F_def)
  have "\<bar>?p0\<bar> \<le> 3200" by (rule evaluateAdvancedPosition_bound)
  then have "\<bar>real_of_int F\<bar> \<le> 3201" using F by linarith
  then have "real_of_int \<bar>F\<bar> \<le> real_of_int 3201" by simp
  then have Fb: "\<bar>F\<bar> \<le> 3201" by (simp only: of_int_le_iff)
  have k: "\<bar>F + 4600\<bar> < 2 ^ 53" "\<bar>F + 2251\<bar> < 2 ^ 53" "\<bar>F + 2256\<bar> < 2 ^ 53"
    using Fb by simp_all
  have "of_int (F + 4600) \<le> ?b1 + ?p1" using b1 d1 F by simp
  then have "of_int (F + 4600) \<le> fl (?b1 + ?p1)" using k(1) by (rule fl_ge_int)
  then have "of_int (F + 4600) \<le> fl (?b1 + ?p1) + fl (r1 * 5)" using j1 by simp
  then have lo: "of_int (F + 4600) \<le> fl (fl (?b1 + ?p1) + fl (r1 * 5))"
    using k(1) by (rule fl_ge_int)
  have "?b2 + ?p2 \<le> of_int (F + 2251)" using b2 d2 F by simp
  then have "fl (?b2 + ?p2) \<le> of_int (F + 2251)" using k(2) by (rule fl_le_int)
  then have "fl (?b2 + ?p2) + fl (r2 * 5) \<le> of_int (F + 2256)" using j2 by simp
  then have hi: "fl (fl (?b2 + ?p2) + fl (r2 * 5)) \<le> of_int (F + 2256)"
    using k(3) by (rule fl_le_int)
  have s1: "fst (score_candidate engine Hard moveHistory r1 m1 gameCopy) =
              Inr \<lparr>sm_move = m1, sm_score = fl (fl (?b1 + ?p1) + fl (r1 * 5))\<rparr>"
    using score_candidate_accepted
      [where engine = engine and gameCopy = gameCopy and m = m1 and difficulty = Hard, OF assms(1)]
    by simp
  have s2: "fst (score_candidate engine Hard moveHistory r2 m2 gameCopy) =
              Inr \<lparr>sm_move = m2, sm_score = fl (fl (?b2 + ?p2) + fl (r2 * 5))\<rparr>"
    using score_candidate_accepted
      [where engine = engine and gameCopy = gameCopy and m = m2 and difficulty = Hard, OF assms(2)]
    by simp
  have "fl (fl (?b2 + ?p2) + fl (r2 * 5)) < fl (fl (?b1 + ?p1) + fl (r1 * 5))"
    using lo hi by simp
  then show ?thesis using s1 s2 by simp
qed

theorem advanced_checkmate_outscores_witness:
  "\<exists>s1 s2.
     fst (score_candidate mating_net_engine Hard [] 0 m_g2 (new_Chess mating_net)) = Inr s1 \<and>
     fst (score_candidate mating_net_engine Hard [] (3/4) m_Kg4 (new_Chess mating_net)) = Inr s2 \<and>
     sm_score s2 < sm_score s1"
proof -
  have r1: "(0::real) \<le> 0" by simp
  have r2: "(3/4::real) < 1" by simp
  show ?thesis
    using advanced_checkmate_outscores
      [where engine = mating_net_engine and gameCopy = "new_Chess mating_net" and ?m1.0 = m_g2
         and ?m2.0 = m_Kg4 and moveHistory = "[]",
       OF engine_g2 engine_Kg4 mating_net_flags mating_net_changes r1 r2] .
qed

end
